theory Spec2Isabelle
  imports Complex_Main
begin

section \<open>Instants of time\<close>

text \<open>
  A Python \<open>timedelta\<close> is a number of microseconds. A timezone-aware \<open>datetime\<close> is
  its wall-clock reading, counted in microseconds since 0001-01-01T00:00:00 of its own
  zone, together with the UTC offset of its \<open>tzinfo\<close>. The calendar fields are read
  off the wall-clock count by division, so \<open>replace\<close> and timedelta arithmetic are
  arithmetic on that count. The count is an unbounded integer: the limits MINYEAR and
  MAXYEAR are checked where a datetime is built from calendar fields, and the
  OverflowError of datetime arithmetic at the two ends of the calendar is outside
  the model. The one place where the code can meet it is line 76: with a last key of
  9999-12-31T21:00 UTC the sum \<open>keys()[-1] + timedelta(hours=3)\<close> raises OverflowError
  in Python, and here it is the count three hours later.
\<close>

type_synonym timedelta = int

definition hours :: "int \<Rightarrow> timedelta" where
  "hours h = h * 3600000000"

record datetime =
  wall :: int
  utcoffset :: timedelta

text \<open>
  The argument of a query: a datetime whose \<open>tzinfo\<close> is unset (\<open>Naive\<close>, with its
  wall-clock count), an aware datetime (\<open>Aware\<close>), or an aware datetime whose UTC offset
  depends on its \<open>fold\<close> attribute (\<open>Folded\<close>): a wall time that a change of the zone's
  offset repeats or skips, such as 2023-10-29T01:00 in Europe/London.
\<close>

datatype stamp = Naive int | Aware datetime | Folded datetime

text \<open>
  Aware datetimes are ordered and subtracted by their UTC instant, and two of them in
  zones of fixed offset are equal when their instants are. A datetime whose offset
  depends on \<open>fold\<close> is ordered in the same way, but is equal to no datetime of
  another zone (PEP 495). The keys of the dictionary are datetimes of \<open>timezone.utc\<close>.
\<close>

definition instant :: "datetime \<Rightarrow> int" where
  "instant d = wall d - utcoffset d"

definition replace_tzinfo_utc :: "int \<Rightarrow> datetime" where
  "replace_tzinfo_utc w = \<lparr>wall = w, utcoffset = 0\<rparr>"

definition astimezone_utc :: "datetime \<Rightarrow> datetime" where
  "astimezone_utc d = \<lparr>wall = wall d - utcoffset d, utcoffset = 0\<rparr>"

definition hour :: "datetime \<Rightarrow> int" where
  "hour d = (wall d div 3600000000) mod 24"

definition replace_minute_second_microsecond_0 :: "datetime \<Rightarrow> datetime" where
  "replace_minute_second_microsecond_0 d = d\<lparr>wall := wall d - wall d mod 3600000000\<rparr>"

definition plus_timedelta :: "datetime \<Rightarrow> timedelta \<Rightarrow> datetime" where
  "plus_timedelta d t = d\<lparr>wall := wall d + t\<rparr>"

definition minus_timedelta :: "datetime \<Rightarrow> timedelta \<Rightarrow> datetime" where
  "minus_timedelta d t = d\<lparr>wall := wall d - t\<rparr>"

section \<open>Exceptions\<close>

datatype exn =
  RuntimeError string | ValueError string | IndexError string | OverflowError string

definition CacheEmpty :: exn where
  "CacheEmpty = RuntimeError ''Kp cache did not populate.''"

definition SourceUnavailable :: exn where
  "SourceUnavailable = RuntimeError
     ''Failed to download KP table from https://kp.gfz.de/kpdata?startdate=1900-01-01&enddate=2050-12-31&format=kp1.''"

definition BeforeEarliest :: exn where
  "BeforeEarliest = ValueError ''Requested datetime is before the earliest Kp value.''"

definition FutureTimestamp :: exn where
  "FutureTimestamp = ValueError ''Requested datetime is in the future.''"

definition LaterThanLatest :: exn where
  "LaterThanLatest = ValueError ''Requested Kp later than the latest available Kp value.''"

definition OutOfRange :: exn where
  "OutOfRange = IndexError ''list index out of range''"

section \<open>Building a key from calendar fields\<close>

definition is_leap :: "int \<Rightarrow> bool" where
  "is_leap y = (y mod 4 = 0 \<and> (y mod 100 \<noteq> 0 \<or> y mod 400 = 0))"

definition days_before_year :: "int \<Rightarrow> int" where
  "days_before_year y = (y - 1) * 365 + (y - 1) div 4 - (y - 1) div 100 + (y - 1) div 400"

definition days_in_month :: "int \<Rightarrow> int \<Rightarrow> int" where
  "days_in_month y m =
     (if m = 2 \<and> is_leap y then 29
      else [31, 28, 31, 30, 31, 30, 31, 31, 30, 31, 30, 31] ! nat (m - 1))"

definition days_before_month :: "int \<Rightarrow> int \<Rightarrow> int" where
  "days_before_month y m =
     [0, 31, 59, 90, 120, 151, 181, 212, 243, 273, 304, 334] ! nat (m - 1)
       + (if 2 < m \<and> is_leap y then 1 else 0)"

definition ymd2ord :: "int \<Rightarrow> int \<Rightarrow> int \<Rightarrow> int" where
  "ymd2ord y m d = days_before_year y + days_before_month y m + d"

text \<open>
  \<open>datetime(year, month, day, hour, tzinfo=timezone.utc)\<close>. The arguments are first
  converted to C integers, in their order, which raises OverflowError for the first one
  that does not fit; then the fields are checked, which raises ValueError with the
  texts of the C implementation.
\<close>

fun c_int :: "int list \<Rightarrow> exn option" where
  "c_int [] = None"
| "c_int (n # ns) =
     (if 2147483647 < n then Some (OverflowError ''signed integer is greater than maximum'')
      else if n < - 2147483648 then Some (OverflowError ''signed integer is less than minimum'')
      else c_int ns)"

fun digits :: "nat \<Rightarrow> string" where
  "digits n =
     (if n < 10 then [char_of (48 + n)] else digits (n div 10) @ [char_of (48 + n mod 10)])"

definition show_int :: "int \<Rightarrow> string" where
  "show_int i = (if i < 0 then CHR ''-'' # digits (nat (- i)) else digits (nat i))"

definition datetime_utc :: "int \<Rightarrow> int \<Rightarrow> int \<Rightarrow> int \<Rightarrow> exn + datetime" where
  "datetime_utc y m d h =
     (case c_int [y, m, d, h] of
        Some e \<Rightarrow> Inl e
      | None \<Rightarrow>
          if \<not> (1 \<le> y \<and> y \<le> 9999)
          then Inl (ValueError (''year '' @ show_int y @ '' is out of range''))
          else if \<not> (1 \<le> m \<and> m \<le> 12) then Inl (ValueError ''month must be in 1..12'')
          else if \<not> (1 \<le> d \<and> d \<le> days_in_month y m)
          then Inl (ValueError ''day is out of range for month'')
          else if \<not> (0 \<le> h \<and> h \<le> 23) then Inl (ValueError ''hour must be in 0..23'')
          else Inr \<lparr>wall = ((ymd2ord y m d - 1) * 24 + h) * 3600000000, utcoffset = 0\<rparr>)"

section \<open>The sorted dictionary\<close>

text \<open>
  \<open>SortedDict\<close>: the items in ascending key order. Keys are found by equality of
  datetimes, that is of instants; assigning to a key that is present keeps the stored
  key and replaces its value.
\<close>

type_synonym 'v sorted_dict = "(datetime \<times> 'v) list"

fun sd_get :: "'v sorted_dict \<Rightarrow> datetime \<Rightarrow> 'v option" where
  "sd_get [] d = None"
| "sd_get ((k, v) # m) d = (if instant k = instant d then Some v else sd_get m d)"

fun sd_setitem :: "'v sorted_dict \<Rightarrow> datetime \<Rightarrow> 'v \<Rightarrow> 'v sorted_dict" where
  "sd_setitem [] d v = [(d, v)]"
| "sd_setitem ((k, w) # m) d v =
     (if instant d < instant k then (d, v) # (k, w) # m
      else if instant d = instant k then (k, v) # m
      else (k, w) # sd_setitem m d v)"

fun bisect_left :: "'v sorted_dict \<Rightarrow> datetime \<Rightarrow> nat" where
  "bisect_left [] d = 0"
| "bisect_left ((k, v) # m) d = (if instant k < instant d then Suc (bisect_left m d) else 0)"

text \<open>Indexing a sequence, with Python's negative indices counting from the end.\<close>

definition py_index :: "'a list \<Rightarrow> int \<Rightarrow> exn + 'a" where
  "py_index xs i =
     (if 0 \<le> i \<and> i < int (length xs) then Inr (xs ! nat i)
      else if i < 0 \<and> - int (length xs) \<le> i then Inr (xs ! nat (int (length xs) + i))
      else Inl OutOfRange)"

definition sd_keys :: "'v sorted_dict \<Rightarrow> datetime list" where
  "sd_keys m = map fst m"

section \<open>The table of the source and the load into the dictionary\<close>

text \<open>
  A row of the Kp table: the date columns (64-bit integers, so that rounding them
  changes nothing) and the eight columns \<open>kp_0\<close>, \<open>kp_3\<close>, ..., \<open>kp_21\<close>, read by hour.
\<close>

record 'v row =
  year :: int
  month :: int
  day :: int
  kp :: "int \<Rightarrow> 'v"

fun update_hours :: "'v row \<Rightarrow> int list \<Rightarrow> 'v sorted_dict \<Rightarrow> exn option \<times> 'v sorted_dict" where
  "update_hours r [] m = (None, m)"
| "update_hours r (h # hs) m =
     (case datetime_utc (year r) (month r) (day r) h of
        Inl e \<Rightarrow> (Some e, m)
      | Inr d \<Rightarrow> update_hours r hs (sd_setitem m d (kp r h)))"

fun update_sorted_dict_from_kp_table ::
  "'v row list \<Rightarrow> 'v sorted_dict \<Rightarrow> exn option \<times> 'v sorted_dict" where
  "update_sorted_dict_from_kp_table [] m = (None, m)"
| "update_sorted_dict_from_kp_table (r # rs) m =
     (case update_hours r [0, 3, 6, 9, 12, 15, 18, 21] m of
        (Some e, m') \<Rightarrow> (Some e, m')
      | (None, m') \<Rightarrow> update_sorted_dict_from_kp_table rs m')"

text \<open>
  What the download and the parsing give when asked: a failure of the download, or
  the table. The world answers the n-th request, made with the flag \<open>force_run\<close>, and
  tells the time.
\<close>

datatype 'v fetched = DownloadFailed | Table "'v row list"

record 'v world =
  fetch :: "bool \<Rightarrow> nat \<Rightarrow> 'v fetched"
  now :: datetime

text \<open>
  The accessor: its dictionary \<open>_sd\<close>, with the number of loads it has asked of the
  source and the warnings it has emitted so far.
\<close>

record 'v accessor =
  sd :: "'v sorted_dict"
  loads :: nat
  warned :: "datetime list"

definition update_cache :: "'v world \<Rightarrow> bool \<Rightarrow> 'v accessor \<Rightarrow> exn option \<times> 'v accessor" where
  "update_cache w force_run s =
     (let s' = s\<lparr>loads := Suc (loads s)\<rparr> in
      case fetch w force_run (loads s) of
        DownloadFailed \<Rightarrow> (Some SourceUnavailable, s')
      | Table t \<Rightarrow>
          (case update_sorted_dict_from_kp_table t (sd s') of
             (e, m) \<Rightarrow> (e, s'\<lparr>sd := m\<rparr>)))"

text \<open>\<open>KpAccessor.__init__\<close>: an error leaves no accessor.\<close>

definition init :: "'v world \<Rightarrow> exn + 'v accessor" where
  "init w =
     (case update_cache w False \<lparr>sd = [], loads = 0, warned = []\<rparr> of
        (Some e, s) \<Rightarrow> Inl e
      | (None, s) \<Rightarrow> Inr s)"

section \<open>The query\<close>

text \<open>Lines 60 and 61: only a missing \<open>tzinfo\<close> is replaced; nothing is converted.\<close>

definition assume_utc :: "stamp \<Rightarrow> datetime" where
  "assume_utc a =
     (case a of Naive w \<Rightarrow> replace_tzinfo_utc w | Aware d \<Rightarrow> d | Folded d \<Rightarrow> d)"

text \<open>
  \<open>dt in self._sd\<close> and \<open>self._sd[dt]\<close> for the argument of the query, before any
  conversion: a datetime whose offset depends on \<open>fold\<close> is equal to none of the keys.
\<close>

definition sd_find :: "'v sorted_dict \<Rightarrow> stamp \<Rightarrow> 'v option" where
  "sd_find m a = (case a of Folded d \<Rightarrow> None | _ \<Rightarrow> sd_get m (assume_utc a))"

text \<open>Lines 67 to 71: an empty cache is loaded once.\<close>

definition populate :: "'v world \<Rightarrow> 'v accessor \<Rightarrow> exn option \<times> 'v accessor" where
  "populate w s =
     (if length (sd s) = 0 then
        (case update_cache w True s of
           (Some e, s') \<Rightarrow> (Some e, s')
         | (None, s') \<Rightarrow> if length (sd s') = 0 then (Some CacheEmpty, s') else (None, s'))
      else (None, s))"

text \<open>
  Lines 73 to 81: the range of the available values. The sum of the last key and three
  hours is the unbounded count, where Python raises OverflowError for a last key of
  9999-12-31T21:00 UTC.
\<close>

definition later_than_latest :: "'v accessor \<Rightarrow> datetime \<Rightarrow> exn + bool" where
  "later_than_latest s dt =
     (case py_index (sd_keys (sd s)) (- 1) of
        Inl e \<Rightarrow> Inl e
      | Inr k \<Rightarrow> Inr (instant (plus_timedelta k (hours 3)) < instant dt))"

definition check_range :: "'v world \<Rightarrow> 'v accessor \<Rightarrow> datetime \<Rightarrow> exn option \<times> 'v accessor" where
  "check_range w s dt =
     (case py_index (sd_keys (sd s)) 0 of
        Inl e \<Rightarrow> (Some e, s)
      | Inr k0 \<Rightarrow>
          if instant dt < instant k0 then (Some BeforeEarliest, s)
          else
            (case later_than_latest s dt of
               Inl e \<Rightarrow> (Some e, s)
             | Inr False \<Rightarrow> (None, s)
             | Inr True \<Rightarrow>
                 if instant (now w) < instant dt then (Some FutureTimestamp, s)
                 else
                   (case update_cache w True s of
                      (Some e, s') \<Rightarrow> (Some e, s')
                    | (None, s') \<Rightarrow>
                        (case later_than_latest s' dt of
                           Inl e \<Rightarrow> (Some e, s')
                         | Inr True \<Rightarrow> (Some LaterThanLatest, s')
                         | Inr False \<Rightarrow> (None, s')))))"

text \<open>Lines 89 to 91: the start of the three-hour interval, in UTC.\<close>

definition discretize :: "datetime \<Rightarrow> datetime" where
  "discretize dt =
     (let d1 = astimezone_utc dt;
          d2 = replace_minute_second_microsecond_0 d1
      in minus_timedelta d2 (hours (hour d2 mod 3)))"

text \<open>Lines 102 to 104: the item before the insertion point.\<close>

definition left_nearest :: "'v accessor \<Rightarrow> datetime \<Rightarrow> (exn + datetime \<times> 'v) \<times> 'v accessor" where
  "left_nearest s dt =
     (let left_match_idx = int (bisect_left (sd s) dt) - 1
      in (py_index (sd s) left_match_idx, s))"

definition get_kv_covering_datetime ::
  "'v world \<Rightarrow> 'v accessor \<Rightarrow> stamp \<Rightarrow> bool \<Rightarrow> (exn + datetime \<times> 'v) \<times> 'v accessor" where
  "get_kv_covering_datetime w s a three_hour_discretization =
     (let dt = assume_utc a in
      case sd_find (sd s) a of
        Some v \<Rightarrow> (Inr (dt, v), s)
      | None \<Rightarrow>
          (case populate w s of
             (Some e, s1) \<Rightarrow> (Inl e, s1)
           | (None, s1) \<Rightarrow>
               (case check_range w s1 dt of
                  (Some e, s2) \<Rightarrow> (Inl e, s2)
                | (None, s2) \<Rightarrow>
                    (case sd_find (sd s2) a of
                       Some v \<Rightarrow> (Inr (dt, v), s2)
                     | None \<Rightarrow>
                         if three_hour_discretization then
                           (let dt' = discretize dt in
                            case sd_get (sd s2) dt' of
                              Some v \<Rightarrow> (Inr (dt', v), s2)
                            | None \<Rightarrow> left_nearest (s2\<lparr>warned := warned s2 @ [dt']\<rparr>) dt')
                         else left_nearest s2 dt))))"

text \<open>\<open>except ValueError: return None\<close>\<close>

definition get_key_covering_date ::
  "'v world \<Rightarrow> 'v accessor \<Rightarrow> stamp \<Rightarrow> (exn + datetime option) \<times> 'v accessor" where
  "get_key_covering_date w s a =
     (case get_kv_covering_datetime w s a True of
        (Inr (k, v), s') \<Rightarrow> (Inr (Some k), s')
      | (Inl (ValueError msg), s') \<Rightarrow> (Inr None, s')
      | (Inl e, s') \<Rightarrow> (Inl e, s'))"

definition get_kp_from_datetime ::
  "'v world \<Rightarrow> 'v accessor \<Rightarrow> stamp \<Rightarrow> (exn + 'v) \<times> 'v accessor" where
  "get_kp_from_datetime w s a =
     (case get_kv_covering_datetime w s a True of
        (Inr (k, v), s') \<Rightarrow> (Inr v, s')
      | (Inl e, s') \<Rightarrow> (Inl e, s'))"

definition call :: "'v world \<Rightarrow> 'v accessor \<Rightarrow> stamp \<Rightarrow> (exn + 'v) \<times> 'v accessor" where
  "call w s a = get_kp_from_datetime w s a"

section \<open>Invariants of the dictionary and the samples of a table\<close>

text \<open>The representation invariant of the sorted dictionary: keys strictly ascending.\<close>

definition sd_sorted :: "'v sorted_dict \<Rightarrow> bool" where
  "sd_sorted m = sorted_wrt (<) (map (\<lambda>p. instant (fst p)) m)"

text \<open>A key on the three-hour grid, in UTC.\<close>

definition grid_aligned :: "datetime \<Rightarrow> bool" where
  "grid_aligned d = (utcoffset d = 0 \<and> wall d mod 10800000000 = 0)"

definition keys_aligned :: "'v sorted_dict \<Rightarrow> bool" where
  "keys_aligned m = list_all grid_aligned (sd_keys m)"

text \<open>
  The samples a table supplies, in the order in which the load assigns them. Read with
  \<open>sd_get\<close> in reverse, the list gives the value supplied last for an instant.
\<close>

definition hour_samples :: "'v row \<Rightarrow> int list \<Rightarrow> (datetime \<times> 'v) list" where
  "hour_samples r hs =
     List.map_filter
       (\<lambda>h. case datetime_utc (year r) (month r) (day r) h of
              Inl e \<Rightarrow> None
            | Inr k \<Rightarrow> Some (k, kp r h)) hs"

definition samples :: "'v row list \<Rightarrow> (datetime \<times> 'v) list" where
  "samples t = concat (map (\<lambda>r. hour_samples r [0, 3, 6, 9, 12, 15, 18, 21]) t)"

section \<open>A small world to run the definitions in\<close>

text \<open>
  Keys at 00:00, 03:00 and 09:00 of 2023-10-01 (the slot at 06:00 is missing), a source
  that supplies the eight values of 2023-10-02, and a clock in 2029.
\<close>

definition demo_sd :: "real sorted_dict" where
  "demo_sd =
     [(\<lparr>wall = 63831715200000000, utcoffset = 0\<rparr>, 1),
      (\<lparr>wall = 63831726000000000, utcoffset = 0\<rparr>, 2),
      (\<lparr>wall = 63831747600000000, utcoffset = 0\<rparr>, 3)]"

definition demo_accessor :: "real accessor" where
  "demo_accessor = \<lparr>sd = demo_sd, loads = 1, warned = []\<rparr>"

definition demo_row :: "real row" where
  "demo_row = \<lparr>year = 2023, month = 10, day = 2, kp = (\<lambda>h. 4 + of_int h)\<rparr>"

definition demo_world :: "real world" where
  "demo_world =
     \<lparr>fetch = (\<lambda>force_run n. Table [demo_row]),
      now = \<lparr>wall = 64000000000000000, utcoffset = 0\<rparr>\<rparr>"

text \<open>A source with nothing to give, and one that cannot be reached.\<close>

definition empty_world :: "real world" where
  "empty_world =
     \<lparr>fetch = (\<lambda>force_run n. Table []),
      now = \<lparr>wall = 64000000000000000, utcoffset = 0\<rparr>\<rparr>"

definition offline_world :: "real world" where
  "offline_world =
     \<lparr>fetch = (\<lambda>force_run n. DownloadFailed),
      now = \<lparr>wall = 64000000000000000, utcoffset = 0\<rparr>\<rparr>"

definition empty_accessor :: "real accessor" where
  "empty_accessor = \<lparr>sd = [], loads = 1, warned = []\<rparr>"

text \<open>A source whose table has a row with month 13.\<close>

definition bad_row :: "real row" where
  "bad_row = \<lparr>year = 2023, month = 13, day = 1, kp = (\<lambda>h. 0)\<rparr>"

definition bad_world :: "real world" where
  "bad_world =
     \<lparr>fetch = (\<lambda>force_run n. Table [bad_row]),
      now = \<lparr>wall = 64000000000000000, utcoffset = 0\<rparr>\<rparr>"

text \<open>
  Keys at 2023-10-28T21:00, 2023-10-29T00:00 and 2023-10-29T03:00 UTC, around the hour
  in which Europe/London leaves summer time, and the datetime 2023-10-29T01:00 of
  Europe/London with \<open>fold=0\<close>: its offset is one hour and depends on \<open>fold\<close>, and its
  instant is that of the second key.
\<close>

definition autumn_sd :: "real sorted_dict" where
  "autumn_sd =
     [(\<lparr>wall = 63834123600000000, utcoffset = 0\<rparr>, 5),
      (\<lparr>wall = 63834134400000000, utcoffset = 0\<rparr>, 6),
      (\<lparr>wall = 63834145200000000, utcoffset = 0\<rparr>, 7)]"

definition autumn_accessor :: "real accessor" where
  "autumn_accessor = \<lparr>sd = autumn_sd, loads = 1, warned = []\<rparr>"

definition london_0100 :: datetime where
  "london_0100 = \<lparr>wall = 63834138000000000, utcoffset = 3600000000\<rparr>"

section \<open>The dictionary operations\<close>

lemma sd_get_setitem:
  "sd_get (sd_setitem m d v) x = (if instant x = instant d then Some v else sd_get m x)"
  by (induction m) auto

lemma keys_setitem:
  "q \<in> set (sd_setitem m d v) \<Longrightarrow> fst q = d \<or> fst q \<in> fst ` set m"
  by (induction m) (force split: if_splits)+

lemma sd_sorted_setitem: "sd_sorted m \<Longrightarrow> sd_sorted (sd_setitem m d v)"
proof (induction m)
  case Nil
  then show ?case by (simp add: sd_sorted_def)
next
  case (Cons p m)
  obtain k w where p: "p = (k, w)" by (cases p)
  from Cons.prems have tl: "sd_sorted m" and hd: "\<forall>q \<in> set m. instant k < instant (fst q)"
    by (auto simp: sd_sorted_def p)
  have "\<forall>q \<in> set (sd_setitem m d v). instant k < instant (fst q)"
    if "instant k < instant d"
    using that hd keys_setitem [of _ m d v] by fastforce
  with Cons.IH [OF tl] Cons.prems show ?case
    by (auto simp: sd_sorted_def p)
qed

lemma keys_aligned_setitem:
  "grid_aligned d \<Longrightarrow> keys_aligned m \<Longrightarrow> keys_aligned (sd_setitem m d v)"
  by (induction m) (auto simp: keys_aligned_def sd_keys_def)

lemma length_setitem: "length m \<le> length (sd_setitem m d v)"
  by (induction m) auto

lemma setitem_not_Nil: "sd_setitem m d v \<noteq> []"
  by (cases m) (auto split: if_splits)

lemma sd_get_cong: "instant d = instant d' \<Longrightarrow> sd_get m d = sd_get m d'"
  by (induction m) auto

lemma bisect_left_cong: "instant d = instant d' \<Longrightarrow> bisect_left m d = bisect_left m d'"
  by (induction m) auto

lemma sd_get_Some_mem:
  "sd_get m d = Some v \<Longrightarrow> \<exists>k. (k, v) \<in> set m \<and> instant k = instant d"
  by (induction m) (auto split: if_splits)

lemma sd_get_None_iff:
  "sd_get m d = None \<longleftrightarrow> instant d \<notin> (\<lambda>p. instant (fst p)) ` set m"
  by (induction m) (auto split: if_splits)

lemma sd_get_mem:
  "sd_sorted m \<Longrightarrow> (k, v) \<in> set m \<Longrightarrow> sd_get m k = Some v"
  by (induction m) (auto simp: sd_sorted_def)

section \<open>The three-hour grid\<close>

lemma mult3_aligned: "(h::int) mod 3 = 0 \<Longrightarrow> ((n * 24 + h) * H) mod (3 * H) = 0"
proof -
  assume "h mod 3 = 0"
  then have "3 dvd h" by (simp add: mod_eq_0_iff_dvd)
  then obtain j where j: "h = 3 * j" by (auto elim: dvdE)
  have eq: "(n * 24 + h) * H = (3 * H) * (n * 8 + j)"
    unfolding j by (simp add: algebra_simps)
  show ?thesis unfolding eq by (rule mod_mult_self1_is_0)
qed

lemma grid_aligned_datetime_utc:
  assumes "datetime_utc y mo d h = Inr k" and "h mod 3 = 0"
  shows "grid_aligned k"
proof -
  from assms(1) have w: "wall k = ((ymd2ord y mo d - 1) * 24 + h) * 3600000000" and o: "utcoffset k = 0"
    by (auto simp: datetime_utc_def split: if_splits)
  have "wall k mod (3 * 3600000000) = 0"
    unfolding w using assms(2) by (rule mult3_aligned)
  then show ?thesis using o by (simp add: grid_aligned_def)
qed

lemma floor3_general:
  fixes u H :: int
  assumes "0 < H"
  shows "(u - u mod H) - H * (((u - u mod H) div H) mod 24 mod 3) = u - u mod (H * 3)"
proof -
  define q where "q = u div H"
  have f: "u - u mod H = H * q"
    unfolding q_def by (simp add: minus_mod_eq_mult_div)
  have h: "(H * q) div H = q"
    using assms by simp
  have m: "q mod 24 mod 3 = q mod 3"
    by (simp add: mod_mod_cancel)
  have e: "q - q mod 3 = 3 * (q div 3)"
    by (simp add: minus_mod_eq_mult_div)
  have "u div (H * 3) = q div 3"
    unfolding q_def by (rule zdiv_zmult2_eq) simp
  then have "u - u mod (H * 3) = (H * 3) * (q div 3)"
    by (simp add: minus_mod_eq_mult_div)
  also have "\<dots> = H * (q - q mod 3)"
    unfolding e by simp
  also have "\<dots> = H * q - H * (q mod 3)"
    by (simp add: algebra_simps)
  finally show ?thesis
    unfolding f h m by simp
qed

lemma discretize_wall: "wall (discretize d) = instant d - instant d mod 10800000000"
proof -
  have "wall (discretize d) =
          (instant d - instant d mod 3600000000)
            - 3600000000 * (((instant d - instant d mod 3600000000) div 3600000000) mod 24 mod 3)"
    by (simp add: discretize_def Let_def astimezone_utc_def replace_minute_second_microsecond_0_def
        minus_timedelta_def hour_def hours_def instant_def mult.commute)
  also have "\<dots> = instant d - instant d mod (3600000000 * 3)"
    by (rule floor3_general) simp
  finally show ?thesis by simp
qed

lemma discretize_offset: "utcoffset (discretize d) = 0"
  by (simp add: discretize_def Let_def astimezone_utc_def replace_minute_second_microsecond_0_def
      minus_timedelta_def)

lemma discretize_instant: "instant (discretize d) = instant d - instant d mod 10800000000"
  using discretize_wall [of d] discretize_offset [of d] by (simp add: instant_def)

section \<open>Positions in the sorted dictionary\<close>

lemma py_index_nth: "i < length xs \<Longrightarrow> py_index xs (int i) = Inr (xs ! i)"
  by (simp add: py_index_def)

lemma py_index_first: "xs \<noteq> [] \<Longrightarrow> py_index xs 0 = Inr (hd xs)"
  by (cases xs) (simp_all add: py_index_def)

lemma py_index_last: "xs \<noteq> [] \<Longrightarrow> py_index xs (- 1) = Inr (last xs)"
proof -
  assume ne: "xs \<noteq> []"
  then have "nat (int (length xs) - 1) = length xs - 1" and "1 \<le> length xs"
    by (simp_all add: Suc_le_eq)
  with ne show ?thesis
    by (simp add: py_index_def last_conv_nth)
qed

lemma py_index_Nil: "py_index [] i = Inl OutOfRange"
  by (simp add: py_index_def)

lemma py_index_Inr_nonempty: "py_index xs i = Inr x \<Longrightarrow> xs \<noteq> []"
  by (auto simp: py_index_Nil)

lemma sd_sorted_nth_less:
  "sd_sorted m \<Longrightarrow> i < j \<Longrightarrow> j < length m \<Longrightarrow> instant (fst (m ! i)) < instant (fst (m ! j))"
  by (simp add: sd_sorted_def sorted_wrt_iff_nth_less)

lemma sd_sorted_nth_le:
  "sd_sorted m \<Longrightarrow> i \<le> j \<Longrightarrow> j < length m \<Longrightarrow> instant (fst (m ! i)) \<le> instant (fst (m ! j))"
  using sd_sorted_nth_less [of m i j] by (cases "i = j") auto

lemma first_le_key:
  assumes "sd_sorted m" and "p \<in> set m"
  shows "instant (fst (hd m)) \<le> instant (fst p)"
proof -
  from assms(2) obtain j where j: "j < length m" "m ! j = p" by (auto simp: in_set_conv_nth)
  then have "m \<noteq> []" by auto
  then have "hd m = m ! 0" by (simp add: hd_conv_nth)
  with sd_sorted_nth_le [OF assms(1), of 0 j] j show ?thesis by simp
qed

lemma key_le_last:
  assumes "sd_sorted m" and "p \<in> set m"
  shows "instant (fst p) \<le> instant (fst (last m))"
proof -
  from assms(2) obtain j where j: "j < length m" "m ! j = p" by (auto simp: in_set_conv_nth)
  then have ne: "m \<noteq> []" by auto
  then have "last m = m ! (length m - 1)" by (simp add: last_conv_nth)
  with sd_sorted_nth_le [OF assms(1), of j "length m - 1"] j ne show ?thesis by simp
qed


lemma bisect_left_between:
  "sd_sorted m \<Longrightarrow> i < length m \<Longrightarrow> instant (fst (m ! i)) < instant d \<Longrightarrow>
   (Suc i < length m \<longrightarrow> instant d \<le> instant (fst (m ! Suc i))) \<Longrightarrow>
   bisect_left m d = Suc i"
proof (induction m arbitrary: i)
  case Nil
  then show ?case by simp
next
  case (Cons p m)
  obtain k v where p: "p = (k, v)" by (cases p)
  from Cons.prems(1) have tl: "sd_sorted m" by (simp add: sd_sorted_def)
  show ?case
  proof (cases i)
    case 0
    have "bisect_left m d = 0"
    proof (cases m)
      case Nil
      then show ?thesis by simp
    next
      case (Cons q m')
      with Cons.prems(4) 0 show ?thesis by (cases q) auto
    qed
    with Cons.prems(3) 0 show ?thesis by (simp add: p)
  next
    case (Suc j)
    from Cons.prems Suc have "bisect_left m d = Suc j"
      by (intro Cons.IH [OF tl]) auto
    moreover have "instant k < instant d"
    proof -
      have "instant (fst ((p # m) ! 0)) < instant (fst ((p # m) ! i))"
        using Cons.prems(1,2) Suc by (intro sd_sorted_nth_less) auto
      with Cons.prems(3) show ?thesis by (simp add: p)
    qed
    ultimately show ?thesis by (simp add: p Suc)
  qed
qed


lemma sd_get_nth:
  "sd_sorted m \<Longrightarrow> i < length m \<Longrightarrow> instant (fst (m ! i)) = instant d \<Longrightarrow> sd_get m d = Some (snd (m ! i))"
proof -
  assume a: "sd_sorted m" "i < length m" "instant (fst (m ! i)) = instant d"
  have "(fst (m ! i), snd (m ! i)) \<in> set m" using a(2) by simp
  from sd_get_mem [OF a(1) this] have "sd_get m (fst (m ! i)) = Some (snd (m ! i))" .
  with sd_get_cong [OF a(3), of m] show ?thesis by simp
qed

lemma sd_get_between:
  assumes "sd_sorted m" and "Suc i < length m"
    and "instant (fst (m ! i)) < instant d" and "instant d < instant (fst (m ! Suc i))"
  shows "sd_get m d = None"
proof (rule ccontr)
  assume "sd_get m d \<noteq> None"
  then obtain v where "sd_get m d = Some v" by auto
  from sd_get_Some_mem [OF this] obtain k where k: "(k, v) \<in> set m" "instant k = instant d" by auto
  then obtain j where j: "j < length m" "m ! j = (k, v)" by (auto simp: in_set_conv_nth)
  show False
  proof (cases "j \<le> i")
    case True
    with sd_sorted_nth_le [OF assms(1), of j i] assms(2,3) j k show False by simp
  next
    case False
    then have "Suc i \<le> j" by simp
    with sd_sorted_nth_le [OF assms(1), of "Suc i" j] assms(4) j k show False by simp
  qed
qed

section \<open>Finding the argument of a query among the keys\<close>

lemma sd_find_Aware [simp]: "sd_find m (Aware d) = sd_get m d"
  by (simp add: sd_find_def assume_utc_def)

lemma sd_find_Naive [simp]: "sd_find m (Naive x) = sd_get m (assume_utc (Naive x))"
  by (simp add: sd_find_def)

lemma sd_find_Folded [simp]: "sd_find m (Folded d) = None"
  by (simp add: sd_find_def)

lemma sd_find_Nil [simp]: "sd_find [] a = None"
  by (cases a) simp_all

lemma sd_find_None: "sd_get m (assume_utc a) = None \<Longrightarrow> sd_find m a = None"
  by (cases a) (simp_all add: assume_utc_def)

lemma sd_find_Some: "sd_find m a = Some v \<Longrightarrow> sd_get m (assume_utc a) = Some v"
  by (cases a) (simp_all add: assume_utc_def)

section \<open>Exact keys\<close>

text \<open>
  C2. A query for a key that is stored in the dictionary returns that key with its value,
  whatever the discretization flag, and leaves the accessor as it was: nothing is
  loaded, no range is checked and no warning is emitted.
\<close>

theorem exact_key_short_circuit:
  assumes "sd_sorted (sd s)" and "(k, v) \<in> set (sd s)"
  shows "get_kv_covering_datetime w s (Aware k) three_hour_discretization = (Inr (k, v), s)"
  using sd_get_mem [OF assms] by (simp add: get_kv_covering_datetime_def assume_utc_def)

theorem exact_key_short_circuit_witness:
  "sd_sorted (sd demo_accessor)
   \<and> (\<lparr>wall = 63831726000000000, utcoffset = 0\<rparr>, 2) \<in> set (sd demo_accessor)
   \<and> get_kv_covering_datetime demo_world demo_accessor
        (Aware \<lparr>wall = 63831726000000000, utcoffset = 0\<rparr>) False
       = (Inr (\<lparr>wall = 63831726000000000, utcoffset = 0\<rparr>, 2), demo_accessor)"
proof -
  have a: "sd_sorted (sd demo_accessor)"
    by (simp add: demo_accessor_def demo_sd_def sd_sorted_def instant_def)
  have b: "(\<lparr>wall = 63831726000000000, utcoffset = 0\<rparr>, 2) \<in> set (sd demo_accessor)"
    by (simp add: demo_accessor_def demo_sd_def)
  from exact_key_short_circuit [OF a b, of demo_world False] a b show ?thesis by simp
qed

section \<open>Loading a table\<close>

lemma sd_get_append:
  "sd_get (a @ b) x = (case sd_get a x of Some v \<Rightarrow> Some v | None \<Rightarrow> sd_get b x)"
  by (induction a) auto

lemma hour_samples_Cons:
  "datetime_utc (year r) (month r) (day r) h = Inr d \<Longrightarrow>
   hour_samples r (h # hs) = (d, kp r h) # hour_samples r hs"
  by (simp add: hour_samples_def List.map_filter_simps)

lemma update_hours_get:
  "update_hours r hs m = (None, m') \<Longrightarrow>
   sd_get m' x = (case sd_get (rev (hour_samples r hs)) x of Some v \<Rightarrow> Some v | None \<Rightarrow> sd_get m x)"
proof (induction hs arbitrary: m)
  case Nil
  then show ?case by (simp add: hour_samples_def List.map_filter_simps)
next
  case (Cons h hs)
  from Cons.prems obtain d where d: "datetime_utc (year r) (month r) (day r) h = Inr d"
    and u: "update_hours r hs (sd_setitem m d (kp r h)) = (None, m')"
    by (auto split: sum.splits)
  from Cons.IH [OF u] show ?case
    by (simp add: hour_samples_Cons [OF d] sd_get_append sd_get_setitem split: option.splits)
qed

lemma update_hours_inv:
  "update_hours r hs m = (e, m') \<Longrightarrow>
   (sd_sorted m \<longrightarrow> sd_sorted m')
   \<and> (keys_aligned m \<and> (\<forall>h \<in> set hs. h mod 3 = 0) \<longrightarrow> keys_aligned m')
   \<and> (sd_get m x \<noteq> None \<longrightarrow> sd_get m' x \<noteq> None)
   \<and> length m \<le> length m'"
proof (induction hs arbitrary: m)
  case Nil
  then show ?case by simp
next
  case (Cons h hs)
  show ?case
  proof (cases "datetime_utc (year r) (month r) (day r) h")
    case (Inl a)
    with Cons.prems show ?thesis by simp
  next
    case (Inr d)
    with Cons.prems have u: "update_hours r hs (sd_setitem m d (kp r h)) = (e, m')" by simp
    have al: "grid_aligned d" if "h mod 3 = 0"
      using Inr that by (rule grid_aligned_datetime_utc)
    from Cons.IH [OF u] al show ?thesis
      using sd_sorted_setitem [of m d "kp r h"] keys_aligned_setitem [of d m "kp r h"]
        length_setitem [of m d "kp r h"]
      by (auto simp: sd_get_setitem)
  qed
qed

lemma update_table_get:
  "update_sorted_dict_from_kp_table t m = (None, m') \<Longrightarrow>
   sd_get m' x = (case sd_get (rev (samples t)) x of Some v \<Rightarrow> Some v | None \<Rightarrow> sd_get m x)"
proof (induction t arbitrary: m)
  case Nil
  then show ?case by (simp add: samples_def)
next
  case (Cons r t)
  from Cons.prems obtain m1 where
    h: "update_hours r [0, 3, 6, 9, 12, 15, 18, 21] m = (None, m1)"
    and u: "update_sorted_dict_from_kp_table t m1 = (None, m')"
    by (auto split: prod.splits option.splits)
  have s: "samples (r # t) = hour_samples r [0, 3, 6, 9, 12, 15, 18, 21] @ samples t"
    by (simp add: samples_def)
  show ?case
    unfolding s rev_append sd_get_append Cons.IH [OF u] update_hours_get [OF h]
    by (simp split: option.splits)
qed

lemma update_table_inv:
  "update_sorted_dict_from_kp_table t m = (e, m') \<Longrightarrow>
   (sd_sorted m \<longrightarrow> sd_sorted m')
   \<and> (keys_aligned m \<longrightarrow> keys_aligned m')
   \<and> (sd_get m x \<noteq> None \<longrightarrow> sd_get m' x \<noteq> None)
   \<and> length m \<le> length m'"
proof (induction t arbitrary: m)
  case Nil
  then show ?case by simp
next
  case (Cons r t)
  obtain e1 m1 where h: "update_hours r [0, 3, 6, 9, 12, 15, 18, 21] m = (e1, m1)"
    by (cases "update_hours r [0, 3, 6, 9, 12, 15, 18, 21] m")
  have i1: "(sd_sorted m \<longrightarrow> sd_sorted m1) \<and> (keys_aligned m \<longrightarrow> keys_aligned m1)
      \<and> (sd_get m x \<noteq> None \<longrightarrow> sd_get m1 x \<noteq> None) \<and> length m \<le> length m1"
    using update_hours_inv [OF h, of x] by simp
  show ?case
  proof (cases e1)
    case None
    with Cons.prems h have "update_sorted_dict_from_kp_table t m1 = (e, m')" by simp
    from Cons.IH [OF this] i1 show ?thesis by auto
  next
    case (Some a)
    with Cons.prems h have "m' = m1" by simp
    with i1 show ?thesis by simp
  qed
qed

lemma update_table_Cons_nonempty:
  "update_sorted_dict_from_kp_table (r # t) m = (None, m') \<Longrightarrow> m' \<noteq> []"
proof -
  assume a: "update_sorted_dict_from_kp_table (r # t) m = (None, m')"
  then obtain d m0 m1 where d: "datetime_utc (year r) (month r) (day r) 0 = Inr d"
    and h: "update_hours r [3, 6, 9, 12, 15, 18, 21] (sd_setitem m d (kp r 0)) = (None, m1)"
    and u: "update_sorted_dict_from_kp_table t m1 = (None, m')"
    by (auto split: prod.splits option.splits sum.splits)
  have "0 < length (sd_setitem m d (kp r 0))" using setitem_not_Nil [of m d "kp r 0"] by simp
  also have "\<dots> \<le> length m1" using update_hours_inv [OF h] by simp
  also have "\<dots> \<le> length m'" using update_table_inv [OF u] by simp
  finally show ?thesis by simp
qed

lemma update_cache_inv:
  assumes "update_cache w force_run s = (e, s')"
  shows "loads s' = Suc (loads s)" and "warned s' = warned s"
    and "sd_sorted (sd s) \<Longrightarrow> sd_sorted (sd s')"
    and "keys_aligned (sd s) \<Longrightarrow> keys_aligned (sd s')"
    and "sd_get (sd s) x \<noteq> None \<Longrightarrow> sd_get (sd s') x \<noteq> None"
    and "length (sd s) \<le> length (sd s')"
proof -
  show "loads s' = Suc (loads s)" and "warned s' = warned s"
    using assms by (auto simp: update_cache_def Let_def split: fetched.splits prod.splits)
  have "(sd_sorted (sd s) \<longrightarrow> sd_sorted (sd s')) \<and> (keys_aligned (sd s) \<longrightarrow> keys_aligned (sd s'))
      \<and> (sd_get (sd s) x \<noteq> None \<longrightarrow> sd_get (sd s') x \<noteq> None) \<and> length (sd s) \<le> length (sd s')"
  proof (cases "fetch w force_run (loads s)")
    case DownloadFailed
    with assms show ?thesis by (auto simp: update_cache_def Let_def)
  next
    case (Table t)
    with assms have "update_sorted_dict_from_kp_table t (sd s) = (e, sd s')"
      by (auto simp: update_cache_def Let_def split: prod.splits)
    from update_table_inv [OF this] show ?thesis by simp
  qed
  then show "sd_sorted (sd s) \<Longrightarrow> sd_sorted (sd s')"
    and "keys_aligned (sd s) \<Longrightarrow> keys_aligned (sd s')"
    and "sd_get (sd s) x \<noteq> None \<Longrightarrow> sd_get (sd s') x \<noteq> None"
    and "length (sd s) \<le> length (sd s')" by simp_all
qed

section \<open>Refresh\<close>

lemma demo_keys:
  "datetime_utc 2023 10 2 0 = Inr \<lparr>wall = 63831801600000000, utcoffset = 0\<rparr>"
  "datetime_utc 2023 10 2 3 = Inr \<lparr>wall = 63831812400000000, utcoffset = 0\<rparr>"
  "datetime_utc 2023 10 2 6 = Inr \<lparr>wall = 63831823200000000, utcoffset = 0\<rparr>"
  "datetime_utc 2023 10 2 9 = Inr \<lparr>wall = 63831834000000000, utcoffset = 0\<rparr>"
  "datetime_utc 2023 10 2 12 = Inr \<lparr>wall = 63831844800000000, utcoffset = 0\<rparr>"
  "datetime_utc 2023 10 2 15 = Inr \<lparr>wall = 63831855600000000, utcoffset = 0\<rparr>"
  "datetime_utc 2023 10 2 18 = Inr \<lparr>wall = 63831866400000000, utcoffset = 0\<rparr>"
  "datetime_utc 2023 10 2 21 = Inr \<lparr>wall = 63831877200000000, utcoffset = 0\<rparr>"
  by (simp_all add: datetime_utc_def days_in_month_def is_leap_def ymd2ord_def
      days_before_year_def days_before_month_def)

lemma demo_refresh:
  "update_cache demo_world True demo_accessor =
     (None,
      \<lparr>sd = [(\<lparr>wall = 63831715200000000, utcoffset = 0\<rparr>, 1),
             (\<lparr>wall = 63831726000000000, utcoffset = 0\<rparr>, 2),
             (\<lparr>wall = 63831747600000000, utcoffset = 0\<rparr>, 3),
             (\<lparr>wall = 63831801600000000, utcoffset = 0\<rparr>, 4),
             (\<lparr>wall = 63831812400000000, utcoffset = 0\<rparr>, 7),
             (\<lparr>wall = 63831823200000000, utcoffset = 0\<rparr>, 10),
             (\<lparr>wall = 63831834000000000, utcoffset = 0\<rparr>, 13),
             (\<lparr>wall = 63831844800000000, utcoffset = 0\<rparr>, 16),
             (\<lparr>wall = 63831855600000000, utcoffset = 0\<rparr>, 19),
             (\<lparr>wall = 63831866400000000, utcoffset = 0\<rparr>, 22),
             (\<lparr>wall = 63831877200000000, utcoffset = 0\<rparr>, 25)],
       loads = 2, warned = []\<rparr>)"
  by (simp add: update_cache_def demo_world_def demo_accessor_def demo_sd_def demo_row_def
      demo_keys instant_def)

lemma demo_samples:
  "samples [demo_row] =
     [(\<lparr>wall = 63831801600000000, utcoffset = 0\<rparr>, 4),
      (\<lparr>wall = 63831812400000000, utcoffset = 0\<rparr>, 7),
      (\<lparr>wall = 63831823200000000, utcoffset = 0\<rparr>, 10),
      (\<lparr>wall = 63831834000000000, utcoffset = 0\<rparr>, 13),
      (\<lparr>wall = 63831844800000000, utcoffset = 0\<rparr>, 16),
      (\<lparr>wall = 63831855600000000, utcoffset = 0\<rparr>, 19),
      (\<lparr>wall = 63831866400000000, utcoffset = 0\<rparr>, 22),
      (\<lparr>wall = 63831877200000000, utcoffset = 0\<rparr>, 25)]"
  by (simp add: samples_def hour_samples_def List.map_filter_simps demo_row_def demo_keys)

text \<open>
  C1, as stated, fails. The load assigns the samples of the table into the dictionary
  and clears nothing: the key of 2023-10-01T00:00, which the source does not supply,
  is still there after a successful refresh, so the items of the dictionary are not
  the samples of the source.
\<close>

theorem refresh_clears_counterexample:
  "fst (update_cache demo_world True demo_accessor) = None
   \<and> fetch demo_world True (loads demo_accessor) = Table [demo_row]
   \<and> (\<lparr>wall = 63831715200000000, utcoffset = 0\<rparr>, 1) \<in> set (sd demo_accessor)
   \<and> (\<lparr>wall = 63831715200000000, utcoffset = 0\<rparr>, 1)
        \<in> set (sd (snd (update_cache demo_world True demo_accessor)))
   \<and> (\<lparr>wall = 63831715200000000, utcoffset = 0\<rparr>, 1) \<notin> set (samples [demo_row])
   \<and> set (sd (snd (update_cache demo_world True demo_accessor))) \<noteq> set (samples [demo_row])"
proof -
  have a: "(\<lparr>wall = 63831715200000000, utcoffset = 0\<rparr>, 1::real)
      \<in> set (sd (snd (update_cache demo_world True demo_accessor)))"
    unfolding demo_refresh by simp
  have b: "(\<lparr>wall = 63831715200000000, utcoffset = 0\<rparr>, 1::real) \<notin> set (samples [demo_row])"
    unfolding demo_samples by simp
  from a b have "set (sd (snd (update_cache demo_world True demo_accessor))) \<noteq> set (samples [demo_row])"
    by blast
  with a b show ?thesis
    by (simp add: demo_refresh) (simp add: demo_world_def demo_accessor_def demo_sd_def)
qed

text \<open>
  C1, amended. A successful refresh asks the source once and assigns every sample of
  the table it gets: afterwards an instant the source supplied has the value supplied
  last for it, and every other instant has what it had before, so no key is lost.
\<close>

theorem refresh_upserts:
  assumes "update_cache w force_run s = (None, s')"
  shows "\<exists>t. fetch w force_run (loads s) = Table t
           \<and> loads s' = Suc (loads s)
           \<and> (\<forall>x. sd_get (sd s') x =
                 (case sd_get (rev (samples t)) x of Some v \<Rightarrow> Some v | None \<Rightarrow> sd_get (sd s) x))"
proof (cases "fetch w force_run (loads s)")
  case DownloadFailed
  with assms show ?thesis by (simp add: update_cache_def Let_def)
next
  case (Table t)
  with assms have "update_sorted_dict_from_kp_table t (sd s) = (None, sd s')"
    by (auto simp: update_cache_def Let_def split: prod.splits)
  from update_table_get [OF this] Table update_cache_inv(1) [OF assms] show ?thesis by simp
qed

theorem refresh_upserts_witness:
  "update_cache demo_world True demo_accessor = (None, snd (update_cache demo_world True demo_accessor))
   \<and> (\<exists>t. fetch demo_world True (loads demo_accessor) = Table t
         \<and> loads (snd (update_cache demo_world True demo_accessor)) = Suc (loads demo_accessor)
         \<and> (\<forall>x. sd_get (sd (snd (update_cache demo_world True demo_accessor))) x =
               (case sd_get (rev (samples t)) x of Some v \<Rightarrow> Some v
                | None \<Rightarrow> sd_get (sd demo_accessor) x)))"
proof -
  have a: "update_cache demo_world True demo_accessor
      = (None, snd (update_cache demo_world True demo_accessor))"
    unfolding demo_refresh by simp
  from refresh_upserts [OF a] a show ?thesis by blast
qed

section \<open>Range validation\<close>

lemma floor_ge:
  fixes a x n :: int
  assumes "a mod n = 0" and "0 < n" and "a \<le> x"
  shows "a \<le> x - x mod n"
proof -
  from assms(1) have a: "a = n * (a div n)" by (simp add: mod_eq_0_iff_dvd)
  from assms(2,3) have "a div n \<le> x div n" by (simp add: zdiv_mono1)
  with assms(2) have "n * (a div n) \<le> n * (x div n)" by simp
  also have "n * (x div n) = x - x mod n" by (simp add: minus_mod_eq_mult_div)
  finally show ?thesis using a by simp
qed

lemma floor_bounds:
  fixes x n :: int
  assumes "0 < n"
  shows "x - x mod n \<le> x" and "x < (x - x mod n) + n"
  using assms pos_mod_sign [of n x] pos_mod_bound [of n x] by simp_all

lemma discretize_le: "instant (discretize d) \<le> instant d"
  unfolding discretize_instant by (rule floor_bounds) simp

lemma discretize_gt: "instant d < instant (discretize d) + 10800000000"
  unfolding discretize_instant by (rule floor_bounds) simp

lemma grid_aligned_instant: "grid_aligned k \<Longrightarrow> instant k mod 10800000000 = 0"
  by (simp add: grid_aligned_def instant_def)

lemma discretize_ge_aligned:
  "grid_aligned k \<Longrightarrow> instant k \<le> instant d \<Longrightarrow> instant k \<le> instant (discretize d)"
  unfolding discretize_instant by (rule floor_ge) (simp_all add: grid_aligned_instant)

lemma discretize_aligned_id:
  assumes "instant d mod 10800000000 = 0"
  shows "instant (discretize d) = instant d"
  unfolding discretize_instant using assms by simp

lemma aligned_eq:
  "grid_aligned k \<Longrightarrow> instant (discretize d) = instant k \<Longrightarrow> discretize d = k"
  using discretize_offset [of d]
  by (cases k; cases "discretize d") (simp add: grid_aligned_def instant_def)

lemma keys_aligned_nth: "keys_aligned m \<Longrightarrow> i < length m \<Longrightarrow> grid_aligned (fst (m ! i))"
  by (simp add: keys_aligned_def sd_keys_def list_all_length)

lemma keys_aligned_mem: "keys_aligned m \<Longrightarrow> (k, v) \<in> set m \<Longrightarrow> grid_aligned k"
  by (force simp: keys_aligned_def sd_keys_def list_all_iff)

lemma instant_plus_3h: "instant (plus_timedelta k (hours 3)) = instant k + 10800000000"
  by (simp add: instant_def plus_timedelta_def hours_def)

lemma first_key: "m \<noteq> [] \<Longrightarrow> py_index (sd_keys m) 0 = Inr (fst (hd m))"
  by (simp add: sd_keys_def py_index_first hd_map)

lemma last_key: "m \<noteq> [] \<Longrightarrow> py_index (sd_keys m) (- 1) = Inr (fst (last m))"
  by (simp add: sd_keys_def py_index_last last_map)

lemma later_than_latest_eq:
  "sd s \<noteq> [] \<Longrightarrow>
   later_than_latest s dt = Inr (instant (fst (last (sd s))) + 10800000000 < instant dt)"
  by (simp add: later_than_latest_def last_key instant_plus_3h)

lemma populate_nonempty: "sd s \<noteq> [] \<Longrightarrow> populate w s = (None, s)"
  by (simp add: populate_def)

lemma check_range_pass:
  assumes "sd s \<noteq> []" and "instant (fst (hd (sd s))) \<le> instant dt"
    and "instant dt \<le> instant (fst (last (sd s))) + 10800000000"
  shows "check_range w s dt = (None, s)"
  using assms by (simp add: check_range_def first_key later_than_latest_eq)

lemma left_nearest_at:
  assumes "i < length (sd s)" and "bisect_left (sd s) d = Suc i"
  shows "left_nearest s d = (Inr (sd s ! i), s)"
  using assms py_index_nth [of i "sd s"] by (simp add: left_nearest_def)

section \<open>Between two adjacent keys\<close>

lemma query_after_validation:
  assumes "sd_find (sd s) a = None" and "sd s \<noteq> []"
    and "instant (fst (hd (sd s))) \<le> instant (assume_utc a)"
    and "instant (assume_utc a) \<le> instant (fst (last (sd s))) + 10800000000"
  shows "get_kv_covering_datetime w s a disc =
     (if disc then
        (case sd_get (sd s) (discretize (assume_utc a)) of
           Some v \<Rightarrow> (Inr (discretize (assume_utc a), v), s)
         | None \<Rightarrow> left_nearest (s\<lparr>warned := warned s @ [discretize (assume_utc a)]\<rparr>)
                     (discretize (assume_utc a)))
      else left_nearest s (assume_utc a))"
  using assms(1) populate_nonempty [OF assms(2), of w] check_range_pass [OF assms(2,3,4), of w]
  by (simp add: get_kv_covering_datetime_def Let_def)

lemma between_in_range:
  assumes "sd_sorted m" and "Suc i < length m"
    and "instant (fst (m ! i)) < x" and "x < instant (fst (m ! Suc i))"
  shows "m \<noteq> []" and "instant (fst (hd m)) \<le> x" and "x \<le> instant (fst (last m)) + 10800000000"
proof -
  from assms(2) show ne: "m \<noteq> []" by auto
  from assms(2) have "m ! i \<in> set m" and "m ! Suc i \<in> set m" by simp_all
  with first_le_key [OF assms(1), of "m ! i"] key_le_last [OF assms(1), of "m ! Suc i"] assms(3,4)
  show "instant (fst (hd m)) \<le> x" and "x \<le> instant (fst (last m)) + 10800000000"
    by simp_all
qed

lemma between_fallback:
  assumes "sd_sorted (sd s)" and "Suc i < length (sd s)"
    and "instant (fst (sd s ! i)) < instant d" and "instant d < instant (fst (sd s ! Suc i))"
  shows "left_nearest s d = (Inr (sd s ! i), s)"
proof -
  from assms(2) have i: "i < length (sd s)" by simp
  from assms have "bisect_left (sd s) d = Suc i"
    by (intro bisect_left_between) simp_all
  with i show ?thesis by (rule left_nearest_at)
qed

lemma between_discretized:
  assumes so: "sd_sorted (sd s)" and al: "keys_aligned (sd s)" and i: "Suc i < length (sd s)"
    and lo: "instant (fst (sd s ! i)) < instant d" and hi: "instant d < instant (fst (sd s ! Suc i))"
  shows "(case sd_get (sd s) (discretize d) of
            Some v \<Rightarrow> (Inr (discretize d, v), s)
          | None \<Rightarrow> left_nearest (s\<lparr>warned := warned s @ [discretize d]\<rparr>) (discretize d))
         = (Inr (sd s ! i), s\<lparr>warned := warned s @ (if instant (discretize d) = instant (fst (sd s ! i)) then [] else [discretize d])\<rparr>)"
proof -
  from i have i': "i < length (sd s)" by simp
  have ga: "grid_aligned (fst (sd s ! i))" using al i' by (rule keys_aligned_nth)
  have ge: "instant (fst (sd s ! i)) \<le> instant (discretize d)"
    using ga lo by (intro discretize_ge_aligned) simp_all
  have lt: "instant (discretize d) < instant (fst (sd s ! Suc i))"
    using discretize_le [of d] hi by simp
  show ?thesis
  proof (cases "instant (discretize d) = instant (fst (sd s ! i))")
    case True
    then have "sd_get (sd s) (discretize d) = Some (snd (sd s ! i))"
      using sd_get_nth [OF so i', of "discretize d"] by simp
    moreover have "discretize d = fst (sd s ! i)"
      using ga True by (rule aligned_eq)
    ultimately show ?thesis using True by simp
  next
    case False
    with ge have lo': "instant (fst (sd s ! i)) < instant (discretize d)" by simp
    have n: "sd_get (sd s) (discretize d) = None"
      using so i lo' lt by (rule sd_get_between)
    have "left_nearest (s\<lparr>warned := warned s @ [discretize d]\<rparr>) (discretize d)
        = (Inr (sd (s\<lparr>warned := warned s @ [discretize d]\<rparr>) ! i), s\<lparr>warned := warned s @ [discretize d]\<rparr>)"
      using so i lo' lt by (intro between_fallback) simp_all
    with n False show ?thesis by simp
  qed
qed

text \<open>
  C3. In a dictionary of grid-aligned keys, a query for an instant strictly between two
  adjacent keys returns the left one with its value, with and without discretization,
  however far apart the two keys are. Nothing is loaded and the dictionary stays as it
  was.
\<close>

theorem between_adjacent_keys:
  assumes "sd_sorted (sd s)" and "keys_aligned (sd s)" and "Suc i < length (sd s)"
    and "instant (fst (sd s ! i)) < instant (assume_utc a)"
    and "instant (assume_utc a) < instant (fst (sd s ! Suc i))"
  shows "fst (get_kv_covering_datetime w s a True) = Inr (sd s ! i)
       \<and> fst (get_kv_covering_datetime w s a False) = Inr (sd s ! i)
       \<and> sd (snd (get_kv_covering_datetime w s a disc)) = sd s
       \<and> loads (snd (get_kv_covering_datetime w s a disc)) = loads s"
proof -
  have n: "sd_get (sd s) (assume_utc a) = None"
    using assms(1,3,4,5) by (rule sd_get_between)
  note r = between_in_range [OF assms(1,3,4,5)]
  note q = query_after_validation [OF sd_find_None [OF n] r, of w]
  have f: "get_kv_covering_datetime w s a False = (Inr (sd s ! i), s)"
    unfolding q using between_fallback [OF assms(1,3,4,5)] by simp
  have t: "get_kv_covering_datetime w s a True
      = (Inr (sd s ! i), s\<lparr>warned := warned s @ (if instant (discretize (assume_utc a)) = instant (fst (sd s ! i)) then [] else [discretize (assume_utc a)])\<rparr>)"
    unfolding q using between_discretized [OF assms] by simp
  show ?thesis
    by (cases disc) (simp_all add: f t)
qed

theorem between_adjacent_keys_witness:
  "sd_sorted (sd demo_accessor) \<and> keys_aligned (sd demo_accessor)
   \<and> Suc 1 < length (sd demo_accessor)
   \<and> instant (fst (sd demo_accessor ! 1)) < instant (assume_utc (Naive 63831740400000000))
   \<and> instant (assume_utc (Naive 63831740400000000)) < instant (fst (sd demo_accessor ! Suc 1))
   \<and> fst (get_kv_covering_datetime demo_world demo_accessor (Naive 63831740400000000) True)
       = Inr (\<lparr>wall = 63831726000000000, utcoffset = 0\<rparr>, 2)
   \<and> fst (get_kv_covering_datetime demo_world demo_accessor (Naive 63831740400000000) False)
       = Inr (\<lparr>wall = 63831726000000000, utcoffset = 0\<rparr>, 2)"
proof -
  have a: "sd_sorted (sd demo_accessor)"
    by (simp add: demo_accessor_def demo_sd_def sd_sorted_def instant_def)
  have b: "keys_aligned (sd demo_accessor)"
    by (simp add: demo_accessor_def demo_sd_def keys_aligned_def sd_keys_def grid_aligned_def)
  have c: "Suc 1 < length (sd demo_accessor)"
    by (simp add: demo_accessor_def demo_sd_def)
  have d: "instant (fst (sd demo_accessor ! 1)) < instant (assume_utc (Naive 63831740400000000))"
    by (simp add: demo_accessor_def demo_sd_def instant_def assume_utc_def replace_tzinfo_utc_def)
  have e: "instant (assume_utc (Naive 63831740400000000)) < instant (fst (sd demo_accessor ! Suc 1))"
    by (simp add: demo_accessor_def demo_sd_def instant_def assume_utc_def replace_tzinfo_utc_def)
  have f: "sd demo_accessor ! 1 = (\<lparr>wall = 63831726000000000, utcoffset = 0\<rparr>, 2)"
    by (simp add: demo_accessor_def demo_sd_def)
  from between_adjacent_keys [OF a b c d e, of demo_world True] a b c d e f show ?thesis
    by simp
qed

section \<open>Beyond the latest key\<close>

lemma left_nearest_state: "snd (left_nearest s d) = s"
  by (simp add: left_nearest_def)

lemma first_le_last:
  assumes "sd_sorted m" and "m \<noteq> []"
  shows "instant (fst (hd m)) \<le> instant (fst (last m))"
  using first_le_key [OF assms(1), of "last m"] assms(2) by simp

lemma update_cache_nonempty:
  "update_cache w force_run s = (e, s') \<Longrightarrow> sd s \<noteq> [] \<Longrightarrow> sd s' \<noteq> []"
  using update_cache_inv(6) [of w force_run s e s'] by auto

lemma check_range_beyond:
  assumes "sd_sorted (sd s)" and "sd s \<noteq> []"
    and "instant (fst (last (sd s))) + 10800000000 < instant dt"
  shows "check_range w s dt =
     (if instant (now w) < instant dt then (Some FutureTimestamp, s)
      else case update_cache w True s of
             (Some e, s') \<Rightarrow> (Some e, s')
           | (None, s') \<Rightarrow>
               if instant (fst (last (sd s'))) + 10800000000 < instant dt
               then (Some LaterThanLatest, s') else (None, s'))"
proof -
  from first_le_last [OF assms(1,2)] assms(3)
  have ge: "\<not> instant dt < instant (fst (hd (sd s)))" by simp
  obtain e s' where u: "update_cache w True s = (e, s')" by (cases "update_cache w True s")
  from update_cache_nonempty [OF u assms(2)] have ne: "sd s' \<noteq> []" .
  show ?thesis
    using ge assms(3)
    by (cases e)
      (simp_all add: check_range_def first_key [OF assms(2)] later_than_latest_eq [OF assms(2)]
        later_than_latest_eq [OF ne] u)
qed

text \<open>
  C4. Let the instant of a query be no key and lie strictly after the last key plus three
  hours. If it also lies strictly after the clock, the query fails with FutureTimestamp
  and asks nothing of the source. Otherwise the query asks the source exactly once,
  whatever comes of it, and if the load succeeds and the instant still lies strictly
  after the new last key plus three hours, the query fails with LaterThanLatest.
\<close>

theorem beyond_latest:
  assumes "sd_sorted (sd s)" and "sd s \<noteq> []"
    and "sd_get (sd s) (assume_utc a) = None"
    and "instant (plus_timedelta (fst (last (sd s))) (hours 3)) < instant (assume_utc a)"
  shows "(instant (now w) < instant (assume_utc a) \<longrightarrow>
            get_kv_covering_datetime w s a disc = (Inl FutureTimestamp, s))
       \<and> (\<not> instant (now w) < instant (assume_utc a) \<longrightarrow>
            loads (snd (get_kv_covering_datetime w s a disc)) = Suc (loads s)
            \<and> (\<forall>s'. update_cache w True s = (None, s')
                    \<and> instant (plus_timedelta (fst (last (sd s'))) (hours 3)) < instant (assume_utc a)
                  \<longrightarrow> get_kv_covering_datetime w s a disc = (Inl LaterThanLatest, s')))"
proof -
  from assms(4) have b: "instant (fst (last (sd s))) + 10800000000 < instant (assume_utc a)"
    by (simp add: instant_plus_3h)
  note c = check_range_beyond [OF assms(1,2) b, of w]
  note p = populate_nonempty [OF assms(2), of w]
  note f = sd_find_None [OF assms(3)]
  obtain e s' where u: "update_cache w True s = (e, s')" by (cases "update_cache w True s")
  have l: "loads s' = Suc (loads s)" using u by (rule update_cache_inv(1))
  have fut: "get_kv_covering_datetime w s a disc = (Inl FutureTimestamp, s)"
    if "instant (now w) < instant (assume_utc a)"
    using that by (simp add: get_kv_covering_datetime_def Let_def p c f)
  have one: "loads (snd (get_kv_covering_datetime w s a disc)) = Suc (loads s)"
    if "\<not> instant (now w) < instant (assume_utc a)"
    using that l
    by (cases e)
      (simp_all add: get_kv_covering_datetime_def Let_def p c u f left_nearest_state
        split: option.splits)
  have late: "get_kv_covering_datetime w s a disc = (Inl LaterThanLatest, s'')"
    if "\<not> instant (now w) < instant (assume_utc a)" and "update_cache w True s = (None, s'')"
      and "instant (plus_timedelta (fst (last (sd s''))) (hours 3)) < instant (assume_utc a)" for s''
    using that
    by (simp add: get_kv_covering_datetime_def Let_def p c f instant_plus_3h)
  from fut one late show ?thesis by blast
qed


theorem beyond_latest_witness:
  "sd_sorted (sd demo_accessor) \<and> sd demo_accessor \<noteq> []
   \<and> sd_get (sd demo_accessor) (assume_utc (Naive 63832000000000000)) = None
   \<and> instant (plus_timedelta (fst (last (sd demo_accessor))) (hours 3))
        < instant (assume_utc (Naive 63832000000000000))
   \<and> \<not> instant (now demo_world) < instant (assume_utc (Naive 63832000000000000))
   \<and> loads (snd (get_kv_covering_datetime demo_world demo_accessor (Naive 63832000000000000) True))
        = Suc (loads demo_accessor)
   \<and> fst (get_kv_covering_datetime demo_world demo_accessor (Naive 63832000000000000) True)
        = Inl LaterThanLatest
   \<and> sd_get (sd demo_accessor) (assume_utc (Naive 64000000000000001)) = None
   \<and> instant (plus_timedelta (fst (last (sd demo_accessor))) (hours 3))
        < instant (assume_utc (Naive 64000000000000001))
   \<and> instant (now demo_world) < instant (assume_utc (Naive 64000000000000001))
   \<and> get_kv_covering_datetime demo_world demo_accessor (Naive 64000000000000001) True
        = (Inl FutureTimestamp, demo_accessor)"
proof -
  have a: "sd_sorted (sd demo_accessor)"
    by (simp add: demo_accessor_def demo_sd_def sd_sorted_def instant_def)
  have b: "sd demo_accessor \<noteq> []"
    by (simp add: demo_accessor_def demo_sd_def)
  have c: "sd_get (sd demo_accessor) (assume_utc (Naive 63832000000000000)) = None"
    by (simp add: demo_accessor_def demo_sd_def instant_def assume_utc_def replace_tzinfo_utc_def)
  have d: "instant (plus_timedelta (fst (last (sd demo_accessor))) (hours 3))
      < instant (assume_utc (Naive 63832000000000000))"
    by (simp add: demo_accessor_def demo_sd_def instant_def assume_utc_def replace_tzinfo_utc_def
        plus_timedelta_def hours_def)
  have e: "\<not> instant (now demo_world) < instant (assume_utc (Naive 63832000000000000))"
    by (simp add: demo_world_def instant_def assume_utc_def replace_tzinfo_utc_def)
  have f: "update_cache demo_world True demo_accessor
      = (None, snd (update_cache demo_world True demo_accessor))"
    unfolding demo_refresh by simp
  have g: "instant (plus_timedelta (fst (last (sd (snd (update_cache demo_world True demo_accessor)))))
        (hours 3)) < instant (assume_utc (Naive 63832000000000000))"
    unfolding demo_refresh
    by (simp add: instant_def assume_utc_def replace_tzinfo_utc_def plus_timedelta_def hours_def)
  have c': "sd_get (sd demo_accessor) (assume_utc (Naive 64000000000000001)) = None"
    by (simp add: demo_accessor_def demo_sd_def instant_def assume_utc_def replace_tzinfo_utc_def)
  have d': "instant (plus_timedelta (fst (last (sd demo_accessor))) (hours 3))
      < instant (assume_utc (Naive 64000000000000001))"
    by (simp add: demo_accessor_def demo_sd_def instant_def assume_utc_def replace_tzinfo_utc_def
        plus_timedelta_def hours_def)
  have e': "instant (now demo_world) < instant (assume_utc (Naive 64000000000000001))"
    by (simp add: demo_world_def instant_def assume_utc_def replace_tzinfo_utc_def)
  from beyond_latest [OF a b c d, of demo_world True] e
  have 1: "loads (snd (get_kv_covering_datetime demo_world demo_accessor (Naive 63832000000000000) True))
        = Suc (loads demo_accessor)"
    and all: "\<forall>s'. update_cache demo_world True demo_accessor = (None, s')
        \<and> instant (plus_timedelta (fst (last (sd s'))) (hours 3))
            < instant (assume_utc (Naive 63832000000000000))
        \<longrightarrow> get_kv_covering_datetime demo_world demo_accessor (Naive 63832000000000000) True
            = (Inl LaterThanLatest, s')"
    by blast+
  from all f g
  have "get_kv_covering_datetime demo_world demo_accessor (Naive 63832000000000000) True
        = (Inl LaterThanLatest, snd (update_cache demo_world True demo_accessor))"
    by blast
  then have 2: "fst (get_kv_covering_datetime demo_world demo_accessor (Naive 63832000000000000) True)
        = Inl LaterThanLatest"
    by simp
  from beyond_latest [OF a b c' d', of demo_world True] e'
  have 3: "get_kv_covering_datetime demo_world demo_accessor (Naive 64000000000000001) True
        = (Inl FutureTimestamp, demo_accessor)"
    by blast
  from a b c d e 1 2 c' d' e' 3 show ?thesis by blast
qed

section \<open>The position before the insertion point\<close>






section \<open>The upper end of the range\<close>

lemma sd_get_after_last:
  assumes "sd_sorted m" and "m \<noteq> []" and "instant (fst (last m)) < instant d"
  shows "sd_get m d = None"
proof (rule ccontr)
  assume "sd_get m d \<noteq> None"
  then obtain v where "sd_get m d = Some v" by auto
  from sd_get_Some_mem [OF this] obtain k where k: "(k, v) \<in> set m" "instant k = instant d" by auto
  from key_le_last [OF assms(1) k(1)] k(2) assms(3) show False by simp
qed

lemma bisect_left_after_last:
  assumes "sd_sorted m" and "m \<noteq> []" and "instant (fst (last m)) < instant d"
  shows "bisect_left m d = Suc (length m - 1)"
proof -
  from assms(2) have l: "length m - 1 < length m" by simp
  have "instant (fst (m ! (length m - 1))) < instant d"
    using assms(2,3) by (simp add: last_conv_nth)
  moreover have "\<not> Suc (length m - 1) < length m"
    by arith
  then have "Suc (length m - 1) < length m \<longrightarrow> instant d \<le> instant (fst (m ! Suc (length m - 1)))"
    by blast
  ultimately show ?thesis
    using assms(1) l by (intro bisect_left_between [of m "length m - 1" d])
qed

lemma fallback_after_last:
  assumes "sd_sorted (sd s)" and "sd s \<noteq> []" and "instant (fst (last (sd s))) < instant d"
  shows "left_nearest s d = (Inr (last (sd s)), s)"
proof -
  from assms(2) have l: "length (sd s) - 1 < length (sd s)" by simp
  from left_nearest_at [OF l bisect_left_after_last [OF assms]] assms(2)
  show ?thesis by (simp add: last_conv_nth)
qed

text \<open>
  C10. In a sorted, non-empty dictionary of grid-aligned keys, an instant equal to the
  last key plus three hours passes the range validation with nothing loaded, and the
  query returns the last key with its value, with discretization and without: the
  check beyond the range is strict.
\<close>

theorem upper_boundary_accepted:
  assumes "sd_sorted (sd s)" and "keys_aligned (sd s)" and "sd s \<noteq> []"
    and "instant (assume_utc a) = instant (plus_timedelta (fst (last (sd s))) (hours 3))"
  shows "check_range w s (assume_utc a) = (None, s)
       \<and> fst (get_kv_covering_datetime w s a True) = Inr (last (sd s))
       \<and> fst (get_kv_covering_datetime w s a False) = Inr (last (sd s))
       \<and> sd (snd (get_kv_covering_datetime w s a disc)) = sd s
       \<and> loads (snd (get_kv_covering_datetime w s a disc)) = loads s"
proof -
  let ?dt = "assume_utc a"
  from assms(4) have eq: "instant ?dt = instant (fst (last (sd s))) + 10800000000"
    by (simp add: instant_plus_3h)
  then have gt: "instant (fst (last (sd s))) < instant ?dt" by simp
  have n: "sd_get (sd s) ?dt = None"
    using assms(1,3) gt by (rule sd_get_after_last)
  have ge: "instant (fst (hd (sd s))) \<le> instant ?dt"
    using first_le_last [OF assms(1,3)] gt by simp
  have le: "instant ?dt \<le> instant (fst (last (sd s))) + 10800000000"
    using eq by simp
  have c: "check_range w s ?dt = (None, s)"
    using assms(3) ge le by (rule check_range_pass)
  note q = query_after_validation [OF sd_find_None [OF n] assms(3) ge le, of w]
  have "grid_aligned (fst (last (sd s)))"
    using keys_aligned_nth [OF assms(2), of "length (sd s) - 1"] assms(3)
    by (simp add: last_conv_nth)
  then have "instant (fst (last (sd s))) mod 10800000000 = 0"
    by (rule grid_aligned_instant)
  then have "instant ?dt mod 10800000000 = 0"
    unfolding eq by simp
  then have di: "instant (discretize ?dt) = instant ?dt"
    by (rule discretize_aligned_id)
  have dn: "sd_get (sd s) (discretize ?dt) = None"
    using sd_get_cong [OF di, of "sd s"] n by simp
  have f: "get_kv_covering_datetime w s a False = (Inr (last (sd s)), s)"
    unfolding q using fallback_after_last [OF assms(1,3) gt] by simp
  have "left_nearest (s\<lparr>warned := warned s @ [discretize ?dt]\<rparr>) (discretize ?dt)
      = (Inr (last (sd (s\<lparr>warned := warned s @ [discretize ?dt]\<rparr>))),
         s\<lparr>warned := warned s @ [discretize ?dt]\<rparr>)"
    using assms(1,3) gt di by (intro fallback_after_last) simp_all
  then have t: "get_kv_covering_datetime w s a True
      = (Inr (last (sd s)), s\<lparr>warned := warned s @ [discretize ?dt]\<rparr>)"
    unfolding q using dn by simp
  show ?thesis
    by (cases disc) (simp_all add: c f t)
qed

theorem upper_boundary_accepted_witness:
  "sd_sorted (sd demo_accessor) \<and> keys_aligned (sd demo_accessor) \<and> sd demo_accessor \<noteq> []
   \<and> instant (assume_utc (Naive 63831758400000000))
       = instant (plus_timedelta (fst (last (sd demo_accessor))) (hours 3))
   \<and> check_range demo_world demo_accessor (assume_utc (Naive 63831758400000000))
       = (None, demo_accessor)
   \<and> fst (get_kv_covering_datetime demo_world demo_accessor (Naive 63831758400000000) True)
       = Inr (\<lparr>wall = 63831747600000000, utcoffset = 0\<rparr>, 3)"
proof -
  have a: "sd_sorted (sd demo_accessor)"
    by (simp add: demo_accessor_def demo_sd_def sd_sorted_def instant_def)
  have b: "keys_aligned (sd demo_accessor)"
    by (simp add: demo_accessor_def demo_sd_def keys_aligned_def sd_keys_def grid_aligned_def)
  have c: "sd demo_accessor \<noteq> []"
    by (simp add: demo_accessor_def demo_sd_def)
  have d: "instant (assume_utc (Naive 63831758400000000))
      = instant (plus_timedelta (fst (last (sd demo_accessor))) (hours 3))"
    by (simp add: demo_accessor_def demo_sd_def instant_def assume_utc_def replace_tzinfo_utc_def
        plus_timedelta_def hours_def)
  have l: "last (sd demo_accessor) = (\<lparr>wall = 63831747600000000, utcoffset = 0\<rparr>, 3)"
    by (simp add: demo_accessor_def demo_sd_def)
  from upper_boundary_accepted [OF a b c d, of demo_world True] a b c d l show ?thesis
    by simp
qed

section \<open>The value of the grid floor\<close>

text \<open>
  C9. In a sorted dictionary of grid-aligned keys, when the grid floor of the instant
  of a query is a key with value v, \<open>get_kp_from_datetime\<close> returns v, raises nothing,
  loads nothing and leaves the accessor as it was.
\<close>

theorem grid_floor_round_trip:
  assumes "sd_sorted (sd s)" and "keys_aligned (sd s)"
    and "sd_get (sd s) (discretize (assume_utc a)) = Some v"
  shows "get_kp_from_datetime w s a = (Inr v, s)"
proof -
  let ?dt = "assume_utc a"
  from sd_get_Some_mem [OF assms(3)] obtain k where
    k: "(k, v) \<in> set (sd s)" "instant k = instant (discretize ?dt)" by auto
  then have ne: "sd s \<noteq> []" by auto
  have ge: "instant (fst (hd (sd s))) \<le> instant ?dt"
    using first_le_key [OF assms(1) k(1)] k(2) discretize_le [of ?dt] by simp
  have le: "instant ?dt \<le> instant (fst (last (sd s))) + 10800000000"
    using key_le_last [OF assms(1) k(1)] k(2) discretize_gt [of ?dt] by simp
  show ?thesis
  proof (cases "sd_find (sd s) a")
    case (Some v')
    from sd_get_Some_mem [OF sd_find_Some [OF Some]] obtain k' where
      k': "(k', v') \<in> set (sd s)" "instant k' = instant ?dt" by auto
    have "grid_aligned k'" using assms(2) k'(1) by (rule keys_aligned_mem)
    then have "instant ?dt mod 10800000000 = 0"
      using grid_aligned_instant [of k'] k'(2) by simp
    then have "instant (discretize ?dt) = instant ?dt"
      by (rule discretize_aligned_id)
    from sd_get_cong [OF this, of "sd s"] assms(3) sd_find_Some [OF Some] have "v' = v" by simp
    with Some show ?thesis
      by (simp add: get_kp_from_datetime_def get_kv_covering_datetime_def Let_def)
  next
    case None
    from query_after_validation [OF None ne ge le, of w True] assms(3)
    show ?thesis by (simp add: get_kp_from_datetime_def)
  qed
qed

theorem grid_floor_round_trip_witness:
  "sd_sorted (sd demo_accessor) \<and> keys_aligned (sd demo_accessor)
   \<and> sd_get (sd demo_accessor)
        (discretize (assume_utc (Aware \<lparr>wall = 63831737000000000, utcoffset = 7200000000\<rparr>))) = Some 2
   \<and> get_kp_from_datetime demo_world demo_accessor
        (Aware \<lparr>wall = 63831737000000000, utcoffset = 7200000000\<rparr>) = (Inr 2, demo_accessor)"
proof -
  have a: "sd_sorted (sd demo_accessor)"
    by (simp add: demo_accessor_def demo_sd_def sd_sorted_def instant_def)
  have b: "keys_aligned (sd demo_accessor)"
    by (simp add: demo_accessor_def demo_sd_def keys_aligned_def sd_keys_def grid_aligned_def)
  have i: "instant (discretize (assume_utc (Aware \<lparr>wall = 63831737000000000, utcoffset = 7200000000\<rparr>)))
      = 63831726000000000"
    unfolding discretize_instant by (simp add: instant_def assume_utc_def)
  have c: "sd_get (sd demo_accessor)
      (discretize (assume_utc (Aware \<lparr>wall = 63831737000000000, utcoffset = 7200000000\<rparr>))) = Some 2"
    by (simp add: demo_accessor_def demo_sd_def i) (simp add: instant_def)
  from grid_floor_round_trip [OF a b c, of demo_world] a b c show ?thesis by simp
qed

section \<open>The key alone\<close>

lemma demo_exact:
  "get_kv_covering_datetime demo_world demo_accessor
     (Aware \<lparr>wall = 63831726000000000, utcoffset = 0\<rparr>) True
   = (Inr (\<lparr>wall = 63831726000000000, utcoffset = 0\<rparr>, 2), demo_accessor)"
  by (simp add: get_kv_covering_datetime_def Let_def assume_utc_def demo_accessor_def
      demo_sd_def instant_def)

lemma demo_before:
  "get_kv_covering_datetime demo_world demo_accessor (Naive 63831000000000000) True
   = (Inl BeforeEarliest, demo_accessor)"
proof -
  have n: "sd_get (sd demo_accessor) (assume_utc (Naive 63831000000000000)) = None"
    by (simp add: demo_accessor_def demo_sd_def instant_def assume_utc_def replace_tzinfo_utc_def)
  have ne: "sd demo_accessor \<noteq> []"
    by (simp add: demo_accessor_def demo_sd_def)
  have c: "check_range demo_world demo_accessor (assume_utc (Naive 63831000000000000))
      = (Some BeforeEarliest, demo_accessor)"
    unfolding check_range_def first_key [OF ne]
    by (simp add: demo_accessor_def demo_sd_def instant_def assume_utc_def replace_tzinfo_utc_def)
  show ?thesis
    by (simp add: get_kv_covering_datetime_def Let_def n populate_nonempty [OF ne] c)
qed

lemma empty_refresh:
  "update_cache empty_world True empty_accessor = (None, \<lparr>sd = [], loads = 2, warned = []\<rparr>)"
  by (simp add: update_cache_def empty_world_def empty_accessor_def)

lemma offline_refresh:
  "update_cache offline_world True empty_accessor
   = (Some SourceUnavailable, \<lparr>sd = [], loads = 2, warned = []\<rparr>)"
  by (simp add: update_cache_def offline_world_def empty_accessor_def)

lemma empty_query:
  "get_kv_covering_datetime empty_world empty_accessor a True
   = (Inl CacheEmpty, \<lparr>sd = [], loads = 2, warned = []\<rparr>)"
proof -
  have "sd empty_accessor = []" by (simp add: empty_accessor_def)
  then show ?thesis
    by (simp add: get_kv_covering_datetime_def Let_def populate_def empty_refresh)
qed

lemma offline_query:
  "get_kv_covering_datetime offline_world empty_accessor a True
   = (Inl SourceUnavailable, \<lparr>sd = [], loads = 2, warned = []\<rparr>)"
proof -
  have "sd empty_accessor = []" by (simp add: empty_accessor_def)
  then show ?thesis
    by (simp add: get_kv_covering_datetime_def Let_def populate_def offline_refresh)
qed

text \<open>
  What \<open>get_key_covering_date\<close> makes of the outcomes of the query that the query
  itself produces: a key and a value give the key; BeforeEarliest, FutureTimestamp and
  LaterThanLatest give None; CacheEmpty and the RuntimeError of a failed download are
  raised again. The accessor is left as the query leaves it.
\<close>

theorem get_key_covering_date_cases:
  "(get_kv_covering_datetime w s a True = (Inr (k, v), s') \<longrightarrow>
      get_key_covering_date w s a = (Inr (Some k), s'))
   \<and> (get_kv_covering_datetime w s a True = (Inl e, s')
        \<and> e \<in> {BeforeEarliest, FutureTimestamp, LaterThanLatest} \<longrightarrow>
      get_key_covering_date w s a = (Inr None, s'))
   \<and> (get_kv_covering_datetime w s a True = (Inl e, s')
        \<and> e \<in> {CacheEmpty, SourceUnavailable} \<longrightarrow>
      get_key_covering_date w s a = (Inl e, s'))"
proof (intro conjI impI)
  assume "get_kv_covering_datetime w s a True = (Inr (k, v), s')"
  then show "get_key_covering_date w s a = (Inr (Some k), s')"
    by (simp add: get_key_covering_date_def)
next
  assume "get_kv_covering_datetime w s a True = (Inl e, s')
    \<and> e \<in> {BeforeEarliest, FutureTimestamp, LaterThanLatest}"
  then show "get_key_covering_date w s a = (Inr None, s')"
    by (auto simp: get_key_covering_date_def BeforeEarliest_def FutureTimestamp_def
        LaterThanLatest_def)
next
  assume "get_kv_covering_datetime w s a True = (Inl e, s')
    \<and> e \<in> {CacheEmpty, SourceUnavailable}"
  then show "get_key_covering_date w s a = (Inl e, s')"
    by (auto simp: get_key_covering_date_def CacheEmpty_def SourceUnavailable_def)
qed

theorem get_key_covering_date_cases_witness:
  "get_key_covering_date demo_world demo_accessor (Aware \<lparr>wall = 63831726000000000, utcoffset = 0\<rparr>)
     = (Inr (Some \<lparr>wall = 63831726000000000, utcoffset = 0\<rparr>), demo_accessor)
   \<and> get_kv_covering_datetime demo_world demo_accessor (Naive 63831000000000000) True
       = (Inl BeforeEarliest, demo_accessor)
   \<and> get_key_covering_date demo_world demo_accessor (Naive 63831000000000000)
       = (Inr None, demo_accessor)
   \<and> get_kv_covering_datetime empty_world empty_accessor (Naive 63831000000000000) True
       = (Inl CacheEmpty, \<lparr>sd = [], loads = 2, warned = []\<rparr>)
   \<and> get_key_covering_date empty_world empty_accessor (Naive 63831000000000000)
       = (Inl CacheEmpty, \<lparr>sd = [], loads = 2, warned = []\<rparr>)
   \<and> get_key_covering_date offline_world empty_accessor (Naive 63831000000000000)
       = (Inl SourceUnavailable, \<lparr>sd = [], loads = 2, warned = []\<rparr>)"
proof -
  from get_key_covering_date_cases
    [of demo_world demo_accessor "Aware \<lparr>wall = 63831726000000000, utcoffset = 0\<rparr>"
      "\<lparr>wall = 63831726000000000, utcoffset = 0\<rparr>" 2 demo_accessor]
    demo_exact
  have 1: "get_key_covering_date demo_world demo_accessor
      (Aware \<lparr>wall = 63831726000000000, utcoffset = 0\<rparr>)
     = (Inr (Some \<lparr>wall = 63831726000000000, utcoffset = 0\<rparr>), demo_accessor)"
    by blast
  from get_key_covering_date_cases
    [of demo_world demo_accessor "Naive 63831000000000000" _ _ demo_accessor BeforeEarliest]
    demo_before
  have 2: "get_key_covering_date demo_world demo_accessor (Naive 63831000000000000)
       = (Inr None, demo_accessor)"
    by blast
  from get_key_covering_date_cases
    [of empty_world empty_accessor "Naive 63831000000000000" _ _
      "\<lparr>sd = [], loads = 2, warned = []\<rparr>" CacheEmpty]
    empty_query
  have 3: "get_key_covering_date empty_world empty_accessor (Naive 63831000000000000)
       = (Inl CacheEmpty, \<lparr>sd = [], loads = 2, warned = []\<rparr>)"
    by blast
  from get_key_covering_date_cases
    [of offline_world empty_accessor "Naive 63831000000000000" _ _
      "\<lparr>sd = [], loads = 2, warned = []\<rparr>" SourceUnavailable]
    offline_query
  have 4: "get_key_covering_date offline_world empty_accessor (Naive 63831000000000000)
       = (Inl SourceUnavailable, \<lparr>sd = [], loads = 2, warned = []\<rparr>)"
    by blast
  from 1 demo_before 2 empty_query 3 4 show ?thesis by blast
qed

lemma bad_refresh:
  "update_cache bad_world True demo_accessor
   = (Some (ValueError ''month must be in 1..12''), demo_accessor\<lparr>loads := 2\<rparr>)"
  by (simp add: update_cache_def bad_world_def bad_row_def demo_accessor_def datetime_utc_def)

lemma bad_query:
  "get_kv_covering_datetime bad_world demo_accessor (Naive 63832000000000000) True
   = (Inl (ValueError ''month must be in 1..12''), demo_accessor\<lparr>loads := 2\<rparr>)"
proof -
  have so: "sd_sorted (sd demo_accessor)"
    by (simp add: demo_accessor_def demo_sd_def sd_sorted_def instant_def)
  have ne: "sd demo_accessor \<noteq> []"
    by (simp add: demo_accessor_def demo_sd_def)
  have n: "sd_get (sd demo_accessor) (assume_utc (Naive 63832000000000000)) = None"
    by (simp add: demo_accessor_def demo_sd_def instant_def assume_utc_def replace_tzinfo_utc_def)
  have b: "instant (fst (last (sd demo_accessor))) + 10800000000
      < instant (assume_utc (Naive 63832000000000000))"
    by (simp add: demo_accessor_def demo_sd_def instant_def assume_utc_def replace_tzinfo_utc_def)
  have nf: "\<not> instant (now bad_world) < instant (assume_utc (Naive 63832000000000000))"
    by (simp add: bad_world_def instant_def assume_utc_def replace_tzinfo_utc_def)
  have c: "check_range bad_world demo_accessor (assume_utc (Naive 63832000000000000))
      = (Some (ValueError ''month must be in 1..12''), demo_accessor\<lparr>loads := 2\<rparr>)"
    unfolding check_range_beyond [OF so ne b] using nf by (simp add: bad_refresh)
  show ?thesis
    by (simp add: get_kv_covering_datetime_def Let_def n populate_nonempty [OF ne] c)
qed

text \<open>
  C6: the code does not do what the claim says for a load that fails with a ValueError.
  The accessor holds keys of 2023-10-01, the instant asked for lies beyond them and
  before the clock, so the query refreshes; the table of the source has a row with
  month 13, and building its key raises a ValueError inside the load. The query fails
  with that error of the source, and \<open>get_key_covering_date\<close> catches it and returns
  None, where the RuntimeError of a failed download is raised again.
\<close>

theorem load_failure_swallowed:
  "fetch bad_world True (loads demo_accessor) = Table [bad_row]
   \<and> datetime_utc (year bad_row) (month bad_row) (day bad_row) 0
       = Inl (ValueError ''month must be in 1..12'')
   \<and> get_kv_covering_datetime bad_world demo_accessor (Naive 63832000000000000) True
       = (Inl (ValueError ''month must be in 1..12''), demo_accessor\<lparr>loads := 2\<rparr>)
   \<and> get_key_covering_date bad_world demo_accessor (Naive 63832000000000000)
       = (Inr None, demo_accessor\<lparr>loads := 2\<rparr>)
   \<and> get_key_covering_date offline_world empty_accessor (Naive 63832000000000000)
       = (Inl SourceUnavailable, \<lparr>sd = [], loads = 2, warned = []\<rparr>)"
proof -
  have 1: "fetch bad_world True (loads demo_accessor) = Table [bad_row]"
    by (simp add: bad_world_def)
  have 2: "datetime_utc (year bad_row) (month bad_row) (day bad_row) 0
       = Inl (ValueError ''month must be in 1..12'')"
    by (simp add: bad_row_def datetime_utc_def)
  have 3: "get_key_covering_date bad_world demo_accessor (Naive 63832000000000000)
       = (Inr None, demo_accessor\<lparr>loads := 2\<rparr>)"
    by (simp add: get_key_covering_date_def bad_query)
  have 4: "get_key_covering_date offline_world empty_accessor (Naive 63832000000000000)
       = (Inl SourceUnavailable, \<lparr>sd = [], loads = 2, warned = []\<rparr>)"
    by (simp add: get_key_covering_date_def offline_query SourceUnavailable_def)
  from 1 2 bad_query 3 4 show ?thesis by simp
qed

section \<open>Construction and the empty cache\<close>

text \<open>
  C8, as stated, fails. The constructor loads from the source and lets the error of
  that load out: with a source that cannot be reached the construction fails with the
  RuntimeError of the download, and no accessor comes to be whose query could report
  anything.
\<close>

theorem construction_fails_counterexample:
  "fetch offline_world False 0 = DownloadFailed
   \<and> init offline_world = Inl SourceUnavailable"
  by (simp add: init_def update_cache_def offline_world_def)

text \<open>
  C8, amended. The construction succeeds, with an empty dictionary, when the source
  supplies a table with no rows; it fails exactly when its one load fails, and then
  with the error of that load, as for a download that fails. A query on an accessor
  whose dictionary is empty asks the source once; when the dictionary is still empty
  after that load, the query fails with CacheEmpty and has asked the source exactly
  once.
\<close>

theorem construction_and_empty_cache:
  "(fetch w False 0 = Table [] \<longrightarrow> init w = Inr \<lparr>sd = [], loads = 1, warned = []\<rparr>)
   \<and> (fetch w False 0 = DownloadFailed \<longrightarrow> init w = Inl SourceUnavailable)
   \<and> (init w = Inl e \<longleftrightarrow>
        fst (update_cache w False \<lparr>sd = [], loads = 0, warned = []\<rparr>) = Some e)
   \<and> (sd s = [] \<and> update_cache w True s = (None, s') \<and> sd s' = [] \<longrightarrow>
        get_kv_covering_datetime w s a disc = (Inl CacheEmpty, s')
        \<and> loads s' = Suc (loads s))
   \<and> (sd s = [] \<and> fetch w True (loads s) = Table [] \<longrightarrow>
        get_kv_covering_datetime w s a disc = (Inl CacheEmpty, s\<lparr>loads := Suc (loads s)\<rparr>))"
proof (intro conjI impI)
  assume "fetch w False 0 = Table []"
  then show "init w = Inr \<lparr>sd = [], loads = 1, warned = []\<rparr>"
    by (simp add: init_def update_cache_def)
next
  assume "fetch w False 0 = DownloadFailed"
  then show "init w = Inl SourceUnavailable"
    by (simp add: init_def update_cache_def)
next
  show "init w = Inl e \<longleftrightarrow>
      fst (update_cache w False \<lparr>sd = [], loads = 0, warned = []\<rparr>) = Some e"
    by (cases "update_cache w False \<lparr>sd = [], loads = 0, warned = []\<rparr>")
      (auto simp: init_def split: option.splits)
next
  assume a: "sd s = [] \<and> update_cache w True s = (None, s') \<and> sd s' = []"
  then show "get_kv_covering_datetime w s a disc = (Inl CacheEmpty, s')"
    by (simp add: get_kv_covering_datetime_def Let_def populate_def)
  from a show "loads s' = Suc (loads s)"
    using update_cache_inv(1) [of w True s None s'] by simp
next
  assume a: "sd s = [] \<and> fetch w True (loads s) = Table []"
  then have "update_cache w True s = (None, s\<lparr>loads := Suc (loads s)\<rparr>)"
    by (simp add: update_cache_def)
  with a show "get_kv_covering_datetime w s a disc = (Inl CacheEmpty, s\<lparr>loads := Suc (loads s)\<rparr>)"
    by (simp add: get_kv_covering_datetime_def Let_def populate_def)
qed

theorem construction_and_empty_cache_witness:
  "fetch empty_world False 0 = Table []
   \<and> init empty_world = Inr empty_accessor
   \<and> fetch offline_world False 0 = DownloadFailed
   \<and> init offline_world = Inl SourceUnavailable
   \<and> sd empty_accessor = []
   \<and> update_cache empty_world True empty_accessor = (None, \<lparr>sd = [], loads = 2, warned = []\<rparr>)
   \<and> fetch empty_world True (loads empty_accessor) = Table []
   \<and> get_kv_covering_datetime empty_world empty_accessor (Naive 63831726000000000) True
       = (Inl CacheEmpty, \<lparr>sd = [], loads = 2, warned = []\<rparr>)
   \<and> loads \<lparr>sd = ([] :: real sorted_dict), loads = 2, warned = []\<rparr> = Suc (loads empty_accessor)"
proof -
  have a: "fetch empty_world False 0 = Table []"
    and b: "sd empty_accessor = []"
    and c: "fetch empty_world True (loads empty_accessor) = Table []"
    and o: "fetch offline_world False 0 = DownloadFailed"
    by (simp_all add: empty_world_def offline_world_def empty_accessor_def)
  have d: "sd \<lparr>sd = ([] :: real sorted_dict), loads = 2, warned = []\<rparr> = []"
    by simp
  note t = construction_and_empty_cache
    [of empty_world _ empty_accessor "\<lparr>sd = [], loads = 2, warned = []\<rparr>"
      "Naive 63831726000000000" True]
  from t a have 1: "init empty_world = Inr empty_accessor"
    by (simp add: empty_accessor_def)
  from construction_and_empty_cache [of offline_world] o
  have 0: "init offline_world = Inl SourceUnavailable"
    by blast
  from t b empty_refresh d
  have 2: "get_kv_covering_datetime empty_world empty_accessor (Naive 63831726000000000) True
       = (Inl CacheEmpty, \<lparr>sd = [], loads = 2, warned = []\<rparr>)"
    and 3: "loads \<lparr>sd = ([] :: real sorted_dict), loads = 2, warned = []\<rparr> = Suc (loads empty_accessor)"
    by blast+
  from a 1 o 0 b empty_refresh c 2 3 show ?thesis by simp
qed

section \<open>Time zones\<close>

lemma populate_aligned:
  "populate w s = (e, s1) \<Longrightarrow> keys_aligned (sd s) \<Longrightarrow> keys_aligned (sd s1)"
  by (auto simp: populate_def split: if_splits prod.splits option.splits
      dest: update_cache_inv(4))

lemma check_range_aligned:
  "check_range w s d = (e, s2) \<Longrightarrow> keys_aligned (sd s) \<Longrightarrow> keys_aligned (sd s2)"
  by (auto simp: check_range_def split: if_splits prod.splits option.splits sum.splits
      bool.splits dest: update_cache_inv(4))

lemma autumn_range:
  "sd autumn_accessor \<noteq> []"
  "instant (fst (hd (sd autumn_accessor))) \<le> instant london_0100"
  "instant london_0100 \<le> instant (fst (last (sd autumn_accessor))) + 10800000000"
  by (simp_all add: autumn_accessor_def autumn_sd_def london_0100_def instant_def)

lemma autumn_folded:
  "get_kv_covering_datetime demo_world autumn_accessor (Folded london_0100) False
   = (Inr (\<lparr>wall = 63834123600000000, utcoffset = 0\<rparr>, 5), autumn_accessor)"
proof -
  have r: "sd autumn_accessor \<noteq> []"
    "instant (fst (hd (sd autumn_accessor))) \<le> instant (assume_utc (Folded london_0100))"
    "instant (assume_utc (Folded london_0100))
      \<le> instant (fst (last (sd autumn_accessor))) + 10800000000"
    using autumn_range by (simp_all add: assume_utc_def)
  have b: "bisect_left (sd autumn_accessor) london_0100 = Suc 0"
    by (simp add: autumn_accessor_def autumn_sd_def london_0100_def instant_def)
  have i: "0 < length (sd autumn_accessor)"
    by (simp add: autumn_accessor_def autumn_sd_def)
  have "left_nearest autumn_accessor london_0100 = (Inr (sd autumn_accessor ! 0), autumn_accessor)"
    using i b by (rule left_nearest_at)
  then show ?thesis
    unfolding query_after_validation [OF sd_find_Folded r]
    by (simp add: assume_utc_def) (simp add: autumn_accessor_def autumn_sd_def)
qed

lemma autumn_folded_discretized:
  "get_kv_covering_datetime demo_world autumn_accessor (Folded london_0100) True
   = (Inr (\<lparr>wall = 63834134400000000, utcoffset = 0\<rparr>, 6), autumn_accessor)"
proof -
  have r: "sd autumn_accessor \<noteq> []"
    "instant (fst (hd (sd autumn_accessor))) \<le> instant (assume_utc (Folded london_0100))"
    "instant (assume_utc (Folded london_0100))
      \<le> instant (fst (last (sd autumn_accessor))) + 10800000000"
    using autumn_range by (simp_all add: assume_utc_def)
  have i: "instant (discretize london_0100) = 63834134400000000"
    unfolding discretize_instant by (simp add: london_0100_def instant_def)
  have "grid_aligned \<lparr>wall = 63834134400000000, utcoffset = 0\<rparr>"
    by (simp add: grid_aligned_def)
  moreover have "instant \<lparr>wall = 63834134400000000, utcoffset = 0\<rparr> = 63834134400000000"
    by (simp add: instant_def)
  with i have "instant (discretize london_0100)
      = instant \<lparr>wall = 63834134400000000, utcoffset = 0\<rparr>"
    by simp
  ultimately have d: "discretize london_0100 = \<lparr>wall = 63834134400000000, utcoffset = 0\<rparr>"
    by (rule aligned_eq)
  have g: "sd_get (sd autumn_accessor) \<lparr>wall = 63834134400000000, utcoffset = 0\<rparr> = Some 6"
    by (simp add: autumn_accessor_def autumn_sd_def instant_def)
  show ?thesis
    unfolding query_after_validation [OF sd_find_Folded r]
    by (simp add: assume_utc_def d g)
qed

lemma autumn_converted:
  "get_kv_covering_datetime demo_world autumn_accessor (Aware (astimezone_utc london_0100)) False
   = (Inr (\<lparr>wall = 63834134400000000, utcoffset = 0\<rparr>, 6), autumn_accessor)"
  by (simp add: get_kv_covering_datetime_def Let_def assume_utc_def astimezone_utc_def
      london_0100_def autumn_accessor_def autumn_sd_def instant_def)

lemma demo_aware_exact:
  "get_kv_covering_datetime demo_world demo_accessor
     (Aware \<lparr>wall = 63831733200000000, utcoffset = 7200000000\<rparr>) True
   = (Inr (\<lparr>wall = 63831733200000000, utcoffset = 7200000000\<rparr>, 2), demo_accessor)"
  by (simp add: get_kv_covering_datetime_def Let_def assume_utc_def demo_accessor_def
      demo_sd_def instant_def)

text \<open>
  C7: the code does not do what the claim says. Nothing converts a timezone-aware
  argument to UTC before the exact checks; the conversion happens only in the
  discretization branch. The datetime 2023-10-29T01:00 of Europe/London has the instant
  of the stored key 2023-10-29T00:00 UTC, but its offset depends on \<open>fold\<close>, so it is
  equal to no key: without discretization the query misses the key and returns the
  item before it, 2023-10-28T21:00 UTC, while the same instant given in UTC returns
  the key itself, as does the query with discretization, which converts. And where the
  exact check does hit, for 05:00 at UTC+02:00 and the key 03:00 UTC, the key returned
  is the argument in its own zone, not the instant in UTC.
\<close>

theorem fold_dependent_key_missed:
  "instant london_0100 = instant \<lparr>wall = 63834134400000000, utcoffset = 0\<rparr>
   \<and> sd_get (sd autumn_accessor) \<lparr>wall = 63834134400000000, utcoffset = 0\<rparr> = Some 6
   \<and> get_kv_covering_datetime demo_world autumn_accessor (Folded london_0100) False
       = (Inr (\<lparr>wall = 63834123600000000, utcoffset = 0\<rparr>, 5), autumn_accessor)
   \<and> get_kv_covering_datetime demo_world autumn_accessor
        (Aware (astimezone_utc london_0100)) False
       = (Inr (\<lparr>wall = 63834134400000000, utcoffset = 0\<rparr>, 6), autumn_accessor)
   \<and> get_kv_covering_datetime demo_world autumn_accessor (Folded london_0100) True
       = (Inr (\<lparr>wall = 63834134400000000, utcoffset = 0\<rparr>, 6), autumn_accessor)
   \<and> get_kv_covering_datetime demo_world demo_accessor
        (Aware \<lparr>wall = 63831733200000000, utcoffset = 7200000000\<rparr>) True
       = (Inr (\<lparr>wall = 63831733200000000, utcoffset = 7200000000\<rparr>, 2), demo_accessor)"
proof -
  have 1: "instant london_0100 = instant \<lparr>wall = 63834134400000000, utcoffset = 0\<rparr>"
    by (simp add: london_0100_def instant_def)
  have 2: "sd_get (sd autumn_accessor) \<lparr>wall = 63834134400000000, utcoffset = 0\<rparr> = Some 6"
    by (simp add: autumn_accessor_def autumn_sd_def instant_def)
  from 1 2 autumn_folded autumn_converted autumn_folded_discretized demo_aware_exact
  show ?thesis by simp
qed

section \<open>The invariants hold in every accessor the code can reach\<close>

lemma init_inv:
  assumes "init w = Inr s"
  shows "sd_sorted (sd s)" and "keys_aligned (sd s)"
proof -
  let ?s0 = "\<lparr>sd = [], loads = 0, warned = []\<rparr> :: 'a accessor"
  from assms have u: "update_cache w False ?s0 = (None, s)"
    by (auto simp: init_def split: prod.splits option.splits)
  have "sd_sorted (sd ?s0)" and "keys_aligned (sd ?s0)"
    by (simp_all add: sd_sorted_def keys_aligned_def sd_keys_def)
  with update_cache_inv(3,4) [OF u] show "sd_sorted (sd s)" and "keys_aligned (sd s)"
    by simp_all
qed

lemma populate_sorted:
  "populate w s = (e, s1) \<Longrightarrow> sd_sorted (sd s) \<Longrightarrow> sd_sorted (sd s1)"
  by (auto simp: populate_def split: if_splits prod.splits option.splits
      dest: update_cache_inv(3))

lemma check_range_sorted:
  "check_range w s d = (e, s2) \<Longrightarrow> sd_sorted (sd s) \<Longrightarrow> sd_sorted (sd s2)"
  by (auto simp: check_range_def split: if_splits prod.splits option.splits sum.splits
      bool.splits dest: update_cache_inv(3))

lemma query_dict:
  "sd (snd (get_kv_covering_datetime w s a disc)) = sd s
   \<or> (\<exists>e s1. populate w s = (e, s1) \<and> sd (snd (get_kv_covering_datetime w s a disc)) = sd s1)
   \<or> (\<exists>e1 s1 e2 s2. populate w s = (e1, s1) \<and> check_range w s1 (assume_utc a) = (e2, s2)
         \<and> sd (snd (get_kv_covering_datetime w s a disc)) = sd s2)"
  by (auto simp: get_kv_covering_datetime_def Let_def left_nearest_def
      split: option.splits prod.splits)

lemma query_inv:
  assumes "get_kv_covering_datetime w s a disc = (r, s')"
  shows "sd_sorted (sd s) \<Longrightarrow> sd_sorted (sd s')" and "keys_aligned (sd s) \<Longrightarrow> keys_aligned (sd s')"
proof -
  from query_dict [of w s a disc] assms
  have d: "sd s' = sd s
      \<or> (\<exists>e s1. populate w s = (e, s1) \<and> sd s' = sd s1)
      \<or> (\<exists>e1 s1 e2 s2. populate w s = (e1, s1) \<and> check_range w s1 (assume_utc a) = (e2, s2)
            \<and> sd s' = sd s2)"
    by simp
  show "sd_sorted (sd s')" if "sd_sorted (sd s)"
    using d that populate_sorted check_range_sorted by metis
  show "keys_aligned (sd s')" if "keys_aligned (sd s)"
    using d that populate_aligned check_range_aligned by metis
qed

end
